theory Spec2Isabelle
  imports Complex_Main "HOL-Library.Sublist" "HOL-Library.Log_Nat" "HOL-Library.Monad_Syntax"
begin

section \<open>Python values\<close>

text \<open>
  A Python \<open>str\<close> is modelled as a \<open>string\<close>: one \<open>char\<close> per code point, for the code
  points below 256.  A Python \<open>float\<close> is an IEEE-754 binary64 value: a finite one is
  given by the rational number it denotes (the sign of a zero is not represented).
\<close>

datatype pyfloat = Finite rat | PosInf | NegInf | NaN

text \<open>
  A \<open>datetime\<close>: the calendar fields, and the offset from UTC in microseconds of an aware
  value (\<open>None\<close> for a naive one).
\<close>

record datetime =
  dt_year :: nat
  dt_month :: nat
  dt_day :: nat
  dt_hour :: nat
  dt_minute :: nat
  dt_second :: nat
  dt_microsecond :: nat
  dt_utcoffset :: "int option"

datatype pyval =
    PyNone
  | PyBool bool
  | PyInt int
  | PyFloat pyfloat
  | PyStr string
  | PyList "pyval list"
  | PyDict "(string \<times> pyval) list"
  | PyDatetime datetime
  | PyLogger

text \<open>An instance is its attribute dictionary.\<close>

type_synonym pyobj = "string \<rightharpoonup> pyval"

text \<open>The exceptions the two modules raise, one constructor for each message.\<close>

datatype config_msg =
    MissingRequiredEnv string
  | EnvCannotBeEmpty string
  | InvalidFileSizeFormat string
  | CouldNotParseFileSize string
  | InvalidFileSize string
  | ApiKeyMustStartWithSk
  | InvalidMaxFileSizeFormat string
  | SupportedTypesMustStartWithDot string
  | ConfigurationIsFrozen string

datatype model_msg =
    MissingRequiredField string
  | FieldMustBeString string
  | InvalidFilenameFormat
  | OnlyPdfSupported
  | ContentTooLarge
  | AnalysisScoreMustBeNumber
  | AnalysisScoreOutOfRange
  | ScoreOutOfRange
  | CriteriaScoreMustBeNumber string
  | AnalysisResultImmutable

datatype error =
    ConfigError config_msg
  | ModelValidationError model_msg
  | TypeError
  | AttributeError
  | ValueError
  | OverflowError
  | ZeroDivisionError

text \<open>
  The error kinds of the specification, and the kind each message of the code falls
  under (the code has one exception class for each module and tells the conditions apart
  by message only).
\<close>

datatype error_kind =
    MissingRequired
  | EmptyValue
  | InvalidFormat
  | OutOfRange
  | SecurityRejected
  | ImmutableViolation

fun spec_kind :: "error \<Rightarrow> error_kind option" where
  "spec_kind (ConfigError (MissingRequiredEnv k)) = Some MissingRequired"
| "spec_kind (ConfigError (EnvCannotBeEmpty k)) = Some EmptyValue"
| "spec_kind (ConfigError (ConfigurationIsFrozen k)) = Some ImmutableViolation"
| "spec_kind (ConfigError m) = Some InvalidFormat"
| "spec_kind (ModelValidationError (MissingRequiredField k)) = Some MissingRequired"
| "spec_kind (ModelValidationError (FieldMustBeString k)) = Some InvalidFormat"
| "spec_kind (ModelValidationError InvalidFilenameFormat) = Some SecurityRejected"
| "spec_kind (ModelValidationError OnlyPdfSupported) = Some InvalidFormat"
| "spec_kind (ModelValidationError ContentTooLarge) = Some SecurityRejected"
| "spec_kind (ModelValidationError AnalysisScoreMustBeNumber) = Some InvalidFormat"
| "spec_kind (ModelValidationError AnalysisScoreOutOfRange) = Some OutOfRange"
| "spec_kind (ModelValidationError ScoreOutOfRange) = Some OutOfRange"
| "spec_kind (ModelValidationError (CriteriaScoreMustBeNumber k)) = Some InvalidFormat"
| "spec_kind (ModelValidationError AnalysisResultImmutable) = Some ImmutableViolation"
| "spec_kind e = None"

subsection \<open>Truth values, numbers and comparisons\<close>

text \<open>\<open>bool(v)\<close>: what \<open>not v\<close> negates.\<close>

fun truthy :: "pyval \<Rightarrow> bool" where
  "truthy PyNone = False"
| "truthy (PyBool b) = b"
| "truthy (PyInt i) = (i \<noteq> 0)"
| "truthy (PyFloat (Finite q)) = (q \<noteq> 0)"
| "truthy (PyFloat f) = True"
| "truthy (PyStr s) = (s \<noteq> [])"
| "truthy (PyList xs) = (xs \<noteq> [])"
| "truthy (PyDict kvs) = (kvs \<noteq> [])"
| "truthy (PyDatetime d) = True"
| "truthy PyLogger = True"

text \<open>\<open>isinstance(v, (int, float))\<close>; \<open>bool\<close> is a subclass of \<open>int\<close>.\<close>

fun is_number :: "pyval \<Rightarrow> bool" where
  "is_number (PyBool b) = True"
| "is_number (PyInt i) = True"
| "is_number (PyFloat f) = True"
| "is_number v = False"

fun is_str :: "pyval \<Rightarrow> bool" where
  "is_str (PyStr s) = True"
| "is_str v = False"

text \<open>
  \<open>0 <= v <= 100\<close> for a number: an integer is compared as it is, a float by its value;
  every comparison with NaN is false.
\<close>

fun between_0_100 :: "pyval \<Rightarrow> bool" where
  "between_0_100 (PyBool b) = True"
| "between_0_100 (PyInt i) = (0 \<le> i \<and> i \<le> 100)"
| "between_0_100 (PyFloat (Finite q)) = (0 \<le> q \<and> q \<le> 100)"
| "between_0_100 v = False"

subsection \<open>String methods\<close>

text \<open>\<open>str.lower\<close>, character by character: A-Z, and the capital letters of Latin-1.\<close>

definition lower_char :: "char \<Rightarrow> char" where
  "lower_char c =
     (let n = of_char c :: nat
      in if (65 \<le> n \<and> n \<le> 90) \<or> (192 \<le> n \<and> n \<le> 222 \<and> n \<noteq> 215)
         then char_of (n + 32) else c)"

definition lower :: "string \<Rightarrow> string" where
  "lower s = map lower_char s"

text \<open>\<open>sub in s\<close>, \<open>s.endswith(t)\<close> and \<open>s.startswith(t)\<close>.\<close>

definition contains :: "string \<Rightarrow> string \<Rightarrow> bool" where
  "contains s sub = sublist sub s"

definition endswith :: "string \<Rightarrow> string \<Rightarrow> bool" where
  "endswith s t = suffix t s"

definition startswith :: "string \<Rightarrow> string \<Rightarrow> bool" where
  "startswith s t = prefix t s"

section \<open>RFPProposal\<close>

text \<open>
  \<open>RFPProposal._validate\<close>.  The method reads four attributes of the instance; the
  generated \<open>__init__\<close> has set all of them.
\<close>

definition max_content_length :: nat where
  "max_content_length = 10000000"

fun validate_analysis_score :: "pyval \<Rightarrow> error + unit" where
  "validate_analysis_score PyNone = Inr ()"
| "validate_analysis_score v =
     (if \<not> is_number v then Inl (ModelValidationError AnalysisScoreMustBeNumber)
      else if \<not> between_0_100 v then Inl (ModelValidationError AnalysisScoreOutOfRange)
      else Inr ())"

definition validate_strings :: "string \<Rightarrow> string \<Rightarrow> pyval \<Rightarrow> error + unit" where
  "validate_strings fname cont score =
     (if contains fname ''../'' \<or> contains fname [CHR 0x5C]
        then Inl (ModelValidationError InvalidFilenameFormat)
      else if \<not> endswith (lower fname) ''.pdf''
        then Inl (ModelValidationError OnlyPdfSupported)
      else if length cont > max_content_length
        then Inl (ModelValidationError ContentTooLarge)
      else validate_analysis_score score)"

definition validate_fields :: "pyval \<Rightarrow> pyval \<Rightarrow> pyval \<Rightarrow> pyval \<Rightarrow> error + unit" where
  "validate_fields i f c score =
     (if i = PyNone \<or> \<not> truthy i
        then Inl (ModelValidationError (MissingRequiredField ''id''))
      else if f = PyNone \<or> \<not> truthy f
        then Inl (ModelValidationError (MissingRequiredField ''filename''))
      else if c = PyNone \<or> \<not> truthy c
        then Inl (ModelValidationError (MissingRequiredField ''content''))
      else if \<not> is_str i then Inl (ModelValidationError (FieldMustBeString ''id''))
      else (case f of
              PyStr fname \<Rightarrow>
                (case c of
                   PyStr cont \<Rightarrow> validate_strings fname cont score
                 | _ \<Rightarrow> Inl (ModelValidationError (FieldMustBeString ''content'')))
            | _ \<Rightarrow> Inl (ModelValidationError (FieldMustBeString ''filename''))))"

definition rfp_validate :: "pyobj \<Rightarrow> error + unit" where
  "rfp_validate self =
     (case (self ''id'', self ''filename'', self ''content'', self ''analysis_score'') of
        (Some i, Some f, Some c, Some score) \<Rightarrow> validate_fields i f c score
      | _ \<Rightarrow> Inl AttributeError)"

text \<open>
  The constructor: the \<open>__init__\<close> that \<open>@dataclass\<close> generates takes the fields as
  keyword arguments, each with a default (\<open>created_at\<close> defaults to \<open>datetime.now()\<close>,
  the value \<open>now\<close> here), stores them and calls \<open>__post_init__\<close>, which validates.  A
  keyword that is not a field is a \<open>TypeError\<close>.
\<close>

definition kwarg :: "(string \<times> pyval) list \<Rightarrow> string \<Rightarrow> pyval \<Rightarrow> pyval" where
  "kwarg kw name dflt = (case map_of kw name of Some v \<Rightarrow> v | None \<Rightarrow> dflt)"

definition rfp_fields :: "string list" where
  "rfp_fields =
     [''id'', ''filename'', ''content'', ''extracted_data'', ''analysis_score'', ''created_at'']"

definition rfp_store :: "datetime \<Rightarrow> (string \<times> pyval) list \<Rightarrow> pyobj" where
  "rfp_store now kw =
     [''id'' \<mapsto> kwarg kw ''id'' PyNone,
      ''filename'' \<mapsto> kwarg kw ''filename'' PyNone,
      ''content'' \<mapsto> kwarg kw ''content'' PyNone,
      ''extracted_data'' \<mapsto> kwarg kw ''extracted_data'' (PyDict []),
      ''analysis_score'' \<mapsto> kwarg kw ''analysis_score'' PyNone,
      ''created_at'' \<mapsto> kwarg kw ''created_at'' (PyDatetime now)]"

definition RFPProposal :: "datetime \<Rightarrow> (string \<times> pyval) list \<Rightarrow> error + pyobj" where
  "RFPProposal now kw =
     (if \<not> list_all (\<lambda>k. k \<in> set rfp_fields) (map fst kw) then Inl TypeError
      else (case rfp_validate (rfp_store now kw) of
              Inl e \<Rightarrow> Inl e
            | Inr u \<Rightarrow> Inr (rfp_store now kw)))"

text \<open>A timestamp for the examples: 2024-01-15T10:30:00, naive.\<close>

definition example_time :: datetime where
  "example_time = \<lparr>dt_year = 2024, dt_month = 1, dt_day = 15, dt_hour = 10, dt_minute = 30,
     dt_second = 0, dt_microsecond = 0, dt_utcoffset = None\<rparr>"

section \<open>Floating-point arithmetic\<close>

text \<open>
  Python's \<open>float\<close> operations are the IEEE-754 binary64 ones: the exact result, rounded
  to the nearest representable value, ties to the even mantissa.  \<open>ilog2 q\<close> is the
  exponent \<open>e\<close> with \<open>2^e \<le> q < 2^(e+1)\<close> of a positive \<open>q\<close>.
\<close>

definition ilog2 :: "rat \<Rightarrow> int" where
  "ilog2 q =
     (let (a, b) = quotient_of q; e = bitlen a - bitlen b
      in if 2 powi e \<le> q then e else e - 1)"

definition round_half_even :: "rat \<Rightarrow> int" where
  "round_half_even x =
     (let f = \<lfloor>x\<rfloor>; d = x - of_int f
      in if d < 1 / 2 \<or> (d = 1 / 2 \<and> even f) then f else f + 1)"

text \<open>
  The mantissa has 53 bits; below \<open>2^-1022\<close> the values are spaced \<open>2^-1074\<close> apart
  (subnormal numbers); a result of \<open>2^1024\<close> or more is an infinity.
\<close>

definition round_to_double :: "rat \<Rightarrow> pyfloat" where
  "round_to_double q =
     (if q = 0 then Finite 0
      else let p = max (ilog2 \<bar>q\<bar>) (- 1022) - 52;
               m = round_half_even (\<bar>q\<bar> / 2 powi p);
               v = of_int m * 2 powi p
           in if v \<ge> 2 powi 1024 then (if q > 0 then PosInf else NegInf)
              else Finite (sgn q * v))"

text \<open>\<open>x + y\<close>, \<open>x * y\<close> and \<open>x / y\<close> on floats; dividing by zero raises.\<close>

fun fadd :: "pyfloat \<Rightarrow> pyfloat \<Rightarrow> pyfloat" where
  "fadd (Finite a) (Finite b) = round_to_double (a + b)"
| "fadd NaN y = NaN"
| "fadd x NaN = NaN"
| "fadd PosInf NegInf = NaN"
| "fadd NegInf PosInf = NaN"
| "fadd PosInf y = PosInf"
| "fadd NegInf y = NegInf"
| "fadd x PosInf = PosInf"
| "fadd x NegInf = NegInf"

fun fneg :: "pyfloat \<Rightarrow> pyfloat" where
  "fneg (Finite a) = Finite (- a)"
| "fneg PosInf = NegInf"
| "fneg NegInf = PosInf"
| "fneg NaN = NaN"

fun fmul :: "pyfloat \<Rightarrow> pyfloat \<Rightarrow> pyfloat" where
  "fmul (Finite a) (Finite b) = round_to_double (a * b)"
| "fmul NaN y = NaN"
| "fmul x NaN = NaN"
| "fmul PosInf (Finite b) = (if b = 0 then NaN else if 0 < b then PosInf else NegInf)"
| "fmul NegInf (Finite b) = (if b = 0 then NaN else if 0 < b then NegInf else PosInf)"
| "fmul (Finite a) PosInf = (if a = 0 then NaN else if 0 < a then PosInf else NegInf)"
| "fmul (Finite a) NegInf = (if a = 0 then NaN else if 0 < a then NegInf else PosInf)"
| "fmul PosInf PosInf = PosInf"
| "fmul PosInf NegInf = NegInf"
| "fmul NegInf PosInf = NegInf"
| "fmul NegInf NegInf = PosInf"

fun fdiv :: "pyfloat \<Rightarrow> pyfloat \<Rightarrow> error + pyfloat" where
  "fdiv x (Finite b) =
     (if b = 0 then Inl ZeroDivisionError
      else case x of
             Finite a \<Rightarrow> Inr (round_to_double (a / b))
           | PosInf \<Rightarrow> Inr (if 0 < b then PosInf else NegInf)
           | NegInf \<Rightarrow> Inr (if 0 < b then NegInf else PosInf)
           | NaN \<Rightarrow> Inr NaN)"
| "fdiv x NaN = Inr NaN"
| "fdiv (Finite a) y = Inr (Finite 0)"
| "fdiv x y = Inr NaN"

text \<open>\<open>x > y\<close> and \<open>x <= y\<close>; a comparison with NaN is false.\<close>

fun fless :: "pyfloat \<Rightarrow> pyfloat \<Rightarrow> bool" where
  "fless NaN y = False"
| "fless x NaN = False"
| "fless (Finite a) (Finite b) = (a < b)"
| "fless x NegInf = False"
| "fless PosInf y = False"
| "fless x y = True"

text \<open>
  \<open>float(n)\<close> of an integer, as the arithmetic operators convert an \<open>int\<close> operand: the
  nearest float, and \<open>OverflowError\<close> when the integer is too large for one.
\<close>

definition float_of_int :: "int \<Rightarrow> error + pyfloat" where
  "float_of_int n =
     (case round_to_double (of_int n) of
        Finite q \<Rightarrow> Inr (Finite q)
      | _ \<Rightarrow> Inl OverflowError)"

text \<open>
  \<open>int(x)\<close> of a float truncates towards zero; an infinity is an \<open>OverflowError\<close>, NaN a
  \<open>ValueError\<close>.
\<close>

fun int_of_float :: "pyfloat \<Rightarrow> error + int" where
  "int_of_float (Finite q) = Inr (if 0 \<le> q then \<lfloor>q\<rfloor> else \<lceil>q\<rceil>)"
| "int_of_float NaN = Inl ValueError"
| "int_of_float x = Inl OverflowError"

text \<open>
  \<open>round(x, 2)\<close>: the exact value of \<open>x\<close> is rounded to two decimals, ties to even, and
  the decimal result is converted to the nearest float; an infinity or NaN is returned as
  it is.
\<close>

fun round2 :: "pyfloat \<Rightarrow> pyfloat" where
  "round2 (Finite q) = round_to_double (of_int (round_half_even (q * 100)) / 100)"
| "round2 x = x"

section \<open>Configuration\<close>

subsection \<open>More string methods\<close>

text \<open>
  \<open>str.strip()\<close> removes the leading and trailing characters for which \<open>str.isspace\<close>
  holds: tab to carriage return, the separators \<open>0x1C\<close> to \<open>0x1F\<close>, the space, NEL and
  the no-break space.
\<close>

definition is_space :: "char \<Rightarrow> bool" where
  "is_space c =
     (let n = of_char c :: nat
      in (9 \<le> n \<and> n \<le> 13) \<or> (28 \<le> n \<and> n \<le> 32) \<or> n = 133 \<or> n = 160)"

definition strip :: "string \<Rightarrow> string" where
  "strip s = rev (dropWhile is_space (rev (dropWhile is_space s)))"

text \<open>
  \<open>str.upper()\<close>: a-z and the small letters of Latin-1 go to their capitals, the sharp s
  to \<open>SS\<close>.  The capitals of the micro sign and of y with diaeresis are code points above
  255; the two characters are left as they are here (neither they nor their capitals are
  a digit, a dot, a letter of a unit or a newline).
\<close>

definition upper_char :: "char \<Rightarrow> string" where
  "upper_char c =
     (let n = of_char c :: nat
      in if n = 223 then ''SS''
         else if (97 \<le> n \<and> n \<le> 122) \<or> (224 \<le> n \<and> n \<le> 254 \<and> n \<noteq> 247)
           then [char_of (n - 32)]
         else [c])"

definition upper :: "string \<Rightarrow> string" where
  "upper s = concat (map upper_char s)"

subsection \<open>Regular expressions\<close>

text \<open>
  The patterns of the module, as regular expressions over character classes, and a
  matcher by derivatives that decides whether a whole string matches.
\<close>

datatype rexp =
    Empty
  | Eps
  | Cls "char list"
  | Alt rexp rexp
  | Seq rexp rexp
  | Star rexp

fun nullable :: "rexp \<Rightarrow> bool" where
  "nullable Empty = False"
| "nullable Eps = True"
| "nullable (Cls cs) = False"
| "nullable (Alt r s) = (nullable r \<or> nullable s)"
| "nullable (Seq r s) = (nullable r \<and> nullable s)"
| "nullable (Star r) = True"

fun deriv :: "char \<Rightarrow> rexp \<Rightarrow> rexp" where
  "deriv c Empty = Empty"
| "deriv c Eps = Empty"
| "deriv c (Cls cs) = (if c \<in> set cs then Eps else Empty)"
| "deriv c (Alt r s) = Alt (deriv c r) (deriv c s)"
| "deriv c (Seq r s) =
     (if nullable r then Alt (Seq (deriv c r) s) (deriv c s) else Seq (deriv c r) s)"
| "deriv c (Star r) = Seq (deriv c r) (Star r)"

fun fullmatch :: "rexp \<Rightarrow> string \<Rightarrow> bool" where
  "fullmatch r [] = nullable r"
| "fullmatch r (c # cs) = fullmatch (deriv c r) cs"

text \<open>\<open>\d\<close> (on the code points below 256 the decimal digits are 0-9), \<open>r+\<close> and \<open>r?\<close>.\<close>

definition digit :: rexp where
  "digit = Cls ''0123456789''"

definition Plus :: "rexp \<Rightarrow> rexp" where
  "Plus r = Seq r (Star r)"

definition Opt :: "rexp \<Rightarrow> rexp" where
  "Opt r = Alt r Eps"

text \<open>
  \<open>$\<close> in Python matches at the end of the string and also just before a newline that
  is the last character.  At the end of a pattern it therefore stands for an optional
  final newline, and \<open>re.match(p$, s)\<close> holds when the whole of \<open>s\<close> matches \<open>p\<close> followed
  by it.
\<close>

definition dollar :: rexp where
  "dollar = Opt (Cls [CHR 0x0A])"

text \<open>The pattern \<open>^\d+(?:\.\d+)?[KMGT]?B$\<close> of \<open>_is_valid_file_size\<close>.\<close>

definition file_size_pattern :: rexp where
  "file_size_pattern =
     Seq (Plus digit)
       (Seq (Opt (Seq (Cls ''.'') (Plus digit)))
          (Seq (Opt (Cls ''KMGT'')) (Seq (Cls ''B'') dollar)))"

definition is_valid_file_size :: "string \<Rightarrow> bool" where
  "is_valid_file_size size_str = fullmatch file_size_pattern (upper size_str)"

subsection \<open>Parsing a file size\<close>

definition is_digit :: "char \<Rightarrow> bool" where
  "is_digit c = (c \<in> set ''0123456789'')"

text \<open>
  \<open>re.match(r'(\d+(?:\.\d+)?)([KMGT]?B)', s)\<close> and its two groups.  The match starts at
  the first character and need not reach the end.  Each repetition takes as many
  characters as it can; giving characters back never helps here, since what follows a
  run of digits in the pattern cannot start with a digit, so the scan below finds the
  match when there is one.
\<close>

definition scan_number :: "string \<Rightarrow> (string \<times> string) option" where
  "scan_number s =
     (let ds = takeWhile is_digit s; r = dropWhile is_digit s
      in if ds = [] then None
         else case r of
                c # t \<Rightarrow>
                  if c = CHR ''.'' \<and> takeWhile is_digit t \<noteq> []
                  then Some (ds @ [c] @ takeWhile is_digit t, dropWhile is_digit t)
                  else Some (ds, r)
              | [] \<Rightarrow> Some (ds, r))"

fun scan_unit :: "string \<Rightarrow> string option" where
  "scan_unit (c # d # r) =
     (if c \<in> set ''KMGT'' \<and> d = CHR ''B'' then Some [c, d]
      else if c = CHR ''B'' then Some [c] else None)"
| "scan_unit [c] = (if c = CHR ''B'' then Some [c] else None)"
| "scan_unit [] = None"

definition match_groups :: "string \<Rightarrow> (string \<times> string) option" where
  "match_groups s =
     (case scan_number s of
        None \<Rightarrow> None
      | Some (number, r) \<Rightarrow>
          (case scan_unit r of None \<Rightarrow> None | Some unit \<Rightarrow> Some (number, unit)))"

text \<open>
  \<open>float(number)\<close> for the strings the first group can hold, digits with an optional
  fraction: the nearest float to the decimal number written.  (Any other string is a
  \<open>ValueError\<close> here; \<open>float\<close> accepts more forms, which the group never holds.)
\<close>

definition digit_value :: "char \<Rightarrow> int" where
  "digit_value c = of_char c - 48"

definition int_of_digits :: "string \<Rightarrow> int" where
  "int_of_digits ds = foldl (\<lambda>n c. 10 * n + digit_value c) 0 ds"

definition decimal_value :: "string \<Rightarrow> string \<Rightarrow> rat" where
  "decimal_value ds fs = of_int (int_of_digits ds) + of_int (int_of_digits fs) / 10 ^ length fs"

definition float_of_literal :: "string \<Rightarrow> error + pyfloat" where
  "float_of_literal number =
     (let ds = takeWhile is_digit number; r = dropWhile is_digit number
      in if ds = [] then Inl ValueError
         else case r of
                [] \<Rightarrow> Inr (round_to_double (decimal_value ds []))
              | c # fs \<Rightarrow>
                  if c = CHR ''.'' \<and> fs \<noteq> [] \<and> list_all is_digit fs
                  then Inr (round_to_double (decimal_value ds fs))
                  else Inl ValueError)"

definition FILE_SIZE_UNITS :: "(string \<times> int) list" where
  "FILE_SIZE_UNITS =
     [(''B'', 1), (''KB'', 1024), (''MB'', 1024 ^ 2), (''GB'', 1024 ^ 3), (''TB'', 1024 ^ 4)]"

text \<open>
  \<open>Config._parse_file_size_to_bytes\<close>.  The \<open>except\<close> clause turns a \<open>ValueError\<close> and a
  \<open>KeyError\<close> into a \<open>ConfigError\<close>; any other exception leaves the method as it is.
\<close>

definition float_times_int :: "pyfloat \<Rightarrow> int \<Rightarrow> error + pyfloat" where
  "float_times_int x k =
     (case float_of_int k of Inl e \<Rightarrow> Inl e | Inr y \<Rightarrow> Inr (fmul x y))"

definition size_in_bytes :: "string \<Rightarrow> string \<Rightarrow> string \<Rightarrow> error + int" where
  "size_in_bytes size_str number unit =
     (case float_of_literal number of
        Inl e \<Rightarrow> Inl (ConfigError (InvalidFileSize size_str))
      | Inr x \<Rightarrow>
          (case map_of FILE_SIZE_UNITS unit of
             None \<Rightarrow> Inl (ConfigError (InvalidFileSize size_str))
           | Some k \<Rightarrow>
               (case float_times_int x k of
                  Inl e \<Rightarrow> Inl e
                | Inr y \<Rightarrow>
                    (case int_of_float y of
                       Inl ValueError \<Rightarrow> Inl (ConfigError (InvalidFileSize size_str))
                     | Inl e \<Rightarrow> Inl e
                     | Inr n \<Rightarrow> Inr n))))"

definition parse_file_size_to_bytes :: "string \<Rightarrow> error + int" where
  "parse_file_size_to_bytes size_str =
     (if \<not> is_valid_file_size size_str
        then Inl (ConfigError (InvalidFileSizeFormat size_str))
      else case match_groups (upper size_str) of
             None \<Rightarrow> Inl (ConfigError (CouldNotParseFileSize (upper size_str)))
           | Some (number, unit) \<Rightarrow> size_in_bytes (upper size_str) number unit)"

subsection \<open>Loading the configuration\<close>

text \<open>
  \<open>Config.__setattr__\<close>: the write guard, then the attribute is stored.
\<close>

definition is_frozen :: "pyobj \<Rightarrow> bool" where
  "is_frozen self = (case self ''_frozen'' of Some v \<Rightarrow> truthy v | None \<Rightarrow> False)"

definition config_setattr :: "pyobj \<Rightarrow> string \<Rightarrow> pyval \<Rightarrow> error + pyobj" where
  "config_setattr self name v =
     (if is_frozen self then Inl (ConfigError (ConfigurationIsFrozen name))
      else Inr (self(name \<mapsto> v)))"

definition and_then :: "error + 'a \<Rightarrow> ('a \<Rightarrow> error + 'b) \<Rightarrow> error + 'b" where
  "and_then r f = (case r of Inl e \<Rightarrow> Inl e | Inr x \<Rightarrow> f x)"

text \<open>
  \<open>_load_dotenv_if_available\<close>: when python-dotenv is installed and \<open>.env\<close> exists
  (\<open>dotenv = Some vars\<close>, the variables the file defines), \<open>load_dotenv()\<close> adds those
  that the environment does not have yet.
\<close>

definition load_dotenv_if_available ::
  "(string \<rightharpoonup> string) option \<Rightarrow> (string \<rightharpoonup> string) \<Rightarrow> (string \<rightharpoonup> string)" where
  "load_dotenv_if_available dotenv environ =
     (case dotenv of None \<Rightarrow> environ | Some vars \<Rightarrow> vars ++ environ)"

definition get_required_env :: "(string \<rightharpoonup> string) \<Rightarrow> string \<Rightarrow> error + string" where
  "get_required_env environ key =
     (case environ key of
        None \<Rightarrow> Inl (ConfigError (MissingRequiredEnv key))
      | Some raw_value \<Rightarrow>
          (if strip raw_value = [] then Inl (ConfigError (EnvCannotBeEmpty key))
           else Inr (strip raw_value)))"

definition get_optional_env :: "(string \<rightharpoonup> string) \<Rightarrow> string \<Rightarrow> string \<Rightarrow> string" where
  "get_optional_env environ key dflt =
     (case environ key of
        None \<Rightarrow> dflt
      | Some raw_value \<Rightarrow> (if strip raw_value = [] then dflt else strip raw_value))"

definition effective_environ ::
  "bool \<Rightarrow> (string \<rightharpoonup> string) option \<Rightarrow> (string \<rightharpoonup> string) \<Rightarrow> (string \<rightharpoonup> string)" where
  "effective_environ load_dotenv dotenv os_environ =
     (if load_dotenv then load_dotenv_if_available dotenv os_environ else os_environ)"

text \<open>
  \<open>_generate_secret_key\<close> returns \<open>secrets.token_hex(32)\<close>: 32 bytes from the system's
  random source (\<open>urandom\<close>, a stream of bytes here), each written as two hexadecimal
  digits.
\<close>

definition hex_digit :: "nat \<Rightarrow> char" where
  "hex_digit n = ''0123456789abcdef'' ! (n mod 16)"

definition hexlify :: "char list \<Rightarrow> string" where
  "hexlify bs = concat (map (\<lambda>b. [hex_digit (of_char b div 16), hex_digit (of_char b mod 16)]) bs)"

definition token_hex :: "(nat \<Rightarrow> char) \<Rightarrow> nat \<Rightarrow> string" where
  "token_hex urandom nbytes = hexlify (map urandom [0..<nbytes])"

definition generate_secret_key :: "(nat \<Rightarrow> char) \<Rightarrow> string" where
  "generate_secret_key urandom = token_hex urandom 32"

definition DEFAULT_MAX_FILE_SIZE :: string where
  "DEFAULT_MAX_FILE_SIZE = ''10MB''"

definition DEFAULT_SUPPORTED_FILE_TYPES :: string where
  "DEFAULT_SUPPORTED_FILE_TYPES = ''.pdf''"

definition get_str_attr :: "pyobj \<Rightarrow> string \<Rightarrow> error + string" where
  "get_str_attr self name = (case self name of Some (PyStr s) \<Rightarrow> Inr s | _ \<Rightarrow> Inl AttributeError)"

text \<open>\<open>Config.validate\<close>.\<close>

definition config_validate :: "pyobj \<Rightarrow> error + unit" where
  "config_validate self =
     and_then (get_str_attr self ''anthropic_api_key'') (\<lambda>key.
       if \<not> startswith key ''sk-'' then Inl (ConfigError ApiKeyMustStartWithSk)
       else and_then (get_str_attr self ''max_file_size'') (\<lambda>size.
         if \<not> is_valid_file_size size then Inl (ConfigError (InvalidMaxFileSizeFormat size))
         else and_then (get_str_attr self ''supported_file_types'') (\<lambda>types.
           if \<not> startswith types ''.''
           then Inl (ConfigError (SupportedTypesMustStartWithDot types))
           else Inr ())))"

text \<open>
  \<open>Config.__init__\<close>.  Every \<open>self.x = ...\<close> goes through \<open>__setattr__\<close>.  The calls to
  the logger have no effect on the object and are left out.  With \<open>load_dotenv\<close> set, the
  environment is read after \<open>_load_dotenv_if_available\<close> has run.
\<close>

definition Config ::
  "bool \<Rightarrow> (string \<rightharpoonup> string) option \<Rightarrow> (nat \<Rightarrow> char) \<Rightarrow> (string \<rightharpoonup> string) \<Rightarrow> error + pyobj" where
  "Config load_dotenv dotenv urandom os_environ =
     and_then (config_setattr Map.empty ''logger'' PyLogger) (\<lambda>self.
     let environ = effective_environ load_dotenv dotenv os_environ in
     and_then (get_required_env environ ''ANTHROPIC_API_KEY'') (\<lambda>key.
     and_then (config_setattr self ''anthropic_api_key'' (PyStr key)) (\<lambda>self.
     and_then (config_setattr self ''flask_secret_key''
        (PyStr (get_optional_env environ ''FLASK_SECRET_KEY'' (generate_secret_key urandom))))
       (\<lambda>self.
     and_then (config_setattr self ''max_file_size''
        (PyStr (get_optional_env environ ''MAX_FILE_SIZE'' DEFAULT_MAX_FILE_SIZE))) (\<lambda>self.
     and_then (config_setattr self ''supported_file_types''
        (PyStr (get_optional_env environ ''SUPPORTED_FILE_TYPES'' DEFAULT_SUPPORTED_FILE_TYPES)))
       (\<lambda>self.
     and_then (get_str_attr self ''max_file_size'') (\<lambda>size.
     and_then (parse_file_size_to_bytes size) (\<lambda>n.
     and_then (config_setattr self ''max_file_size_bytes'' (PyInt n)) (\<lambda>self.
     and_then (config_validate self) (\<lambda>u.
     config_setattr self ''_frozen'' (PyBool True)))))))))))"

text \<open>The attributes of an instance that \<open>__init__\<close> has completed.\<close>

definition config_object :: "string \<Rightarrow> string \<Rightarrow> string \<Rightarrow> string \<Rightarrow> int \<Rightarrow> pyobj" where
  "config_object key secret max_size types n =
     [''logger'' \<mapsto> PyLogger, ''anthropic_api_key'' \<mapsto> PyStr key,
      ''flask_secret_key'' \<mapsto> PyStr secret, ''max_file_size'' \<mapsto> PyStr max_size,
      ''supported_file_types'' \<mapsto> PyStr types, ''max_file_size_bytes'' \<mapsto> PyInt n,
      ''_frozen'' \<mapsto> PyBool True]"

section \<open>Timestamps\<close>





text \<open>\<open>'%0wd' % n\<close>: the decimal digits of \<open>n\<close>, filled with zeros to the width \<open>w\<close>.\<close>

fun digits :: "nat \<Rightarrow> nat \<Rightarrow> string" where
  "digits 0 n = []"
| "digits (Suc w) n = digits w (n div 10) @ [''0123456789'' ! (n mod 10)]"



text \<open>
  \<open>datetime.fromisoformat\<close>, for the format the library documents as the inverse of
  \<open>isoformat\<close>: \<open>YYYY-MM-DD[*HH[:MM[:SS[.fff[fff]]]][+HH:MM[:SS[.ffffff]]]]\<close>, where \<open>*\<close>
  is any single character.  A fraction has three or six digits; the offset is read to
  the end of the string.  A string of another form, or with a field out of range, is a
  \<open>ValueError\<close>.  (Later versions of the library read further ISO 8601 forms.)
\<close>

definition number :: "nat \<Rightarrow> string \<Rightarrow> (nat \<times> string) option" where
  "number w s =
     (if w \<le> length s \<and> list_all is_digit (take w s)
      then Some (nat (int_of_digits (take w s)), drop w s) else None)"



definition fraction :: "string \<Rightarrow> (nat \<times> string) option" where
  "fraction s = (case s of c # r \<Rightarrow> if c = CHR ''.'' then number 6 r else Some (0, s)
                 | [] \<Rightarrow> Some (0, s))"









section \<open>Assignments and dictionaries\<close>

text \<open>
  An assignment \<open>obj.name = value\<close> runs the \<open>__setattr__\<close> of the class.  Its outcome
  is the exception raised, if any, and the object afterwards: an exception leaves the
  object as it was.
\<close>

definition assign ::
  "(pyobj \<Rightarrow> string \<Rightarrow> pyval \<Rightarrow> error + pyobj) \<Rightarrow> pyobj \<Rightarrow> string \<Rightarrow> pyval
     \<Rightarrow> error option \<times> pyobj" where
  "assign setattr self name v =
     (case setattr self name v of Inl e \<Rightarrow> (Some e, self) | Inr self' \<Rightarrow> (None, self'))"

text \<open>
  \<open>RFPProposal\<close> is a plain \<open>@dataclass\<close>: it defines no \<open>__setattr__\<close>, so an assignment
  stores the attribute.
\<close>

definition rfp_setattr :: "pyobj \<Rightarrow> string \<Rightarrow> pyval \<Rightarrow> error + pyobj" where
  "rfp_setattr self name v = Inr (self(name \<mapsto> v))"

text \<open>
  \<open>AnalysisResult.__setattr__\<close>.  The class attribute \<open>_frozen = False\<close> makes
  \<open>hasattr(self, '_frozen')\<close> true for every instance, and \<open>self._frozen\<close> is that default
  until the instance has the attribute.
\<close>

definition analysis_setattr :: "pyobj \<Rightarrow> string \<Rightarrow> pyval \<Rightarrow> error + pyobj" where
  "analysis_setattr self name v =
     (if is_frozen self then Inl (ModelValidationError AnalysisResultImmutable)
      else Inr (self(name \<mapsto> v)))"

text \<open>A sequence of assignments \<open>self.k = v\<close>, as a generated \<open>__init__\<close> makes them.\<close>

fun set_all ::
  "(pyobj \<Rightarrow> string \<Rightarrow> pyval \<Rightarrow> error + pyobj) \<Rightarrow> pyobj \<Rightarrow> (string \<times> pyval) list
     \<Rightarrow> error + pyobj" where
  "set_all setattr self [] = Inr self"
| "set_all setattr self ((k, v) # kvs) =
     (case setattr self k v of Inl e \<Rightarrow> Inl e | Inr self' \<Rightarrow> set_all setattr self' kvs)"





subsection \<open>RFPProposal: serialization\<close>



section \<open>AnalysisResult\<close>

text \<open>The weights are float literals: each is the double nearest to the decimal written.\<close>

definition DEFAULT_CRITERIA_WEIGHTS :: "(string \<times> pyfloat) list" where
  "DEFAULT_CRITERIA_WEIGHTS =
     [(''price'', round_to_double (30 / 100)),
      (''technical_approach'', round_to_double (25 / 100)),
      (''experience'', round_to_double (20 / 100)),
      (''timeline'', round_to_double (15 / 100)),
      (''risk'', round_to_double (10 / 100))]"

text \<open>\<open>AnalysisResult._validate\<close>.\<close>

fun validate_overall_score :: "pyval \<Rightarrow> error + unit" where
  "validate_overall_score PyNone = Inr ()"
| "validate_overall_score v =
     (if \<not> is_number v then Inl TypeError
      else if \<not> between_0_100 v then Inl (ModelValidationError ScoreOutOfRange)
      else Inr ())"

fun validate_criteria :: "(string \<times> pyval) list \<Rightarrow> error + unit" where
  "validate_criteria [] = Inr ()"
| "validate_criteria ((criterion, score) # rest) =
     (if \<not> is_number score
        then Inl (ModelValidationError (CriteriaScoreMustBeNumber criterion))
      else if \<not> between_0_100 score then Inl (ModelValidationError ScoreOutOfRange)
      else validate_criteria rest)"

definition analysis_validate_fields :: "pyval \<Rightarrow> pyval \<Rightarrow> pyval \<Rightarrow> error + unit" where
  "analysis_validate_fields proposal_id criteria_scores overall_score =
     (if \<not> truthy proposal_id
        then Inl (ModelValidationError (MissingRequiredField ''proposal_id''))
      else if \<not> truthy criteria_scores
        then Inl (ModelValidationError (MissingRequiredField ''criteria_scores''))
      else and_then (validate_overall_score overall_score) (\<lambda>u.
        case criteria_scores of
          PyDict items \<Rightarrow> validate_criteria items
        | _ \<Rightarrow> Inl AttributeError))"

definition analysis_validate :: "pyobj \<Rightarrow> error + unit" where
  "analysis_validate self =
     (case (self ''proposal_id'', self ''criteria_scores'', self ''overall_score'') of
        (Some p, Some c, Some s) \<Rightarrow> analysis_validate_fields p c s
      | _ \<Rightarrow> Inl AttributeError)"

text \<open>
  \<open>AnalysisResult._calculate_overall_score\<close>.  \<open>score * weight\<close> converts an integer
  score to a float first.  The loop evaluates \<open>1.0 / len(self.criteria_scores)\<close> for every
  criterion, also for one that has a default weight.
\<close>

fun score_times_weight :: "pyval \<Rightarrow> pyfloat \<Rightarrow> error + pyfloat" where
  "score_times_weight (PyFloat x) w = Inr (fmul x w)"
| "score_times_weight (PyInt i) w = and_then (float_of_int i) (\<lambda>x. Inr (fmul x w))"
| "score_times_weight (PyBool b) w =
     and_then (float_of_int (if b then 1 else 0)) (\<lambda>x. Inr (fmul x w))"
| "score_times_weight v w = Inl TypeError"

definition equal_share :: "nat \<Rightarrow> error + pyfloat" where
  "equal_share n = and_then (float_of_int (int n)) (\<lambda>x. fdiv (Finite 1) x)"

definition criterion_weight :: "string \<Rightarrow> pyfloat \<Rightarrow> pyfloat" where
  "criterion_weight criterion dflt =
     (case map_of DEFAULT_CRITERIA_WEIGHTS criterion of Some w \<Rightarrow> w | None \<Rightarrow> dflt)"

fun score_loop ::
  "nat \<Rightarrow> (string \<times> pyval) list \<Rightarrow> pyfloat \<Rightarrow> pyfloat \<Rightarrow> error + (pyfloat \<times> pyfloat)" where
  "score_loop n [] total_score total_weight = Inr (total_score, total_weight)"
| "score_loop n ((criterion, score) # rest) total_score total_weight =
     and_then (equal_share n) (\<lambda>share.
       let weight = criterion_weight criterion share
       in and_then (score_times_weight score weight) (\<lambda>p.
            score_loop n rest (fadd total_score p) (fadd total_weight weight)))"

definition calculate_overall_score :: "(string \<times> pyval) list \<Rightarrow> error + pyfloat" where
  "calculate_overall_score criteria_scores =
     and_then (score_loop (length criteria_scores) criteria_scores (Finite 0) (Finite 0))
       (\<lambda>(total_score, total_weight).
          if fless (Finite 0) total_weight
          then and_then (fdiv total_score total_weight) (\<lambda>q. Inr (round2 q))
          else Inr (round2 (Finite 0)))"

text \<open>
  The constructor.  The generated \<open>__init__\<close> requires \<open>proposal_id\<close> and
  \<open>criteria_scores\<close>, assigns the eight fields (\<open>_frozen\<close> is not a parameter and gets its
  default) and calls \<open>__post_init__\<close>, which validates, computes a missing overall
  score and then sets \<open>_frozen\<close> through \<open>object.__setattr__\<close>, past the guard.
\<close>

definition analysis_fields :: "string list" where
  "analysis_fields =
     [''proposal_id'', ''criteria_scores'', ''overall_score'', ''strengths'', ''concerns'',
      ''recommendation_rank'', ''created_at'']"

definition analysis_init_values :: "datetime \<Rightarrow> (string \<times> pyval) list \<Rightarrow> (string \<times> pyval) list" where
  "analysis_init_values now kw =
     [(''proposal_id'', kwarg kw ''proposal_id'' PyNone),
      (''criteria_scores'', kwarg kw ''criteria_scores'' PyNone),
      (''overall_score'', kwarg kw ''overall_score'' PyNone),
      (''strengths'', kwarg kw ''strengths'' (PyList [])),
      (''concerns'', kwarg kw ''concerns'' (PyList [])),
      (''recommendation_rank'', kwarg kw ''recommendation_rank'' PyNone),
      (''created_at'', kwarg kw ''created_at'' (PyDatetime now)),
      (''_frozen'', PyBool False)]"

definition analysis_score_step :: "pyobj \<Rightarrow> error + pyobj" where
  "analysis_score_step self =
     (case self ''overall_score'' of
        Some PyNone \<Rightarrow>
          (case self ''criteria_scores'' of
             Some (PyDict items) \<Rightarrow>
               and_then (calculate_overall_score items) (\<lambda>score.
                 analysis_setattr self ''overall_score'' (PyFloat score))
           | _ \<Rightarrow> Inl AttributeError)
      | Some v \<Rightarrow> Inr self
      | None \<Rightarrow> Inl AttributeError)"

definition analysis_post_init :: "pyobj \<Rightarrow> error + pyobj" where
  "analysis_post_init self =
     and_then (analysis_validate self) (\<lambda>u.
     and_then (analysis_score_step self) (\<lambda>self.
     Inr (self(''_frozen'' \<mapsto> PyBool True))))"

definition AnalysisResult :: "datetime \<Rightarrow> (string \<times> pyval) list \<Rightarrow> error + pyobj" where
  "AnalysisResult now kw =
     (if \<not> list_all (\<lambda>k. k \<in> set analysis_fields) (map fst kw) then Inl TypeError
      else if map_of kw ''proposal_id'' = None \<or> map_of kw ''criteria_scores'' = None
        then Inl TypeError
      else and_then (set_all analysis_setattr Map.empty (analysis_init_values now kw))
             analysis_post_init)"

subsection \<open>AnalysisResult: serialization\<close>



text \<open>The attributes of an \<open>AnalysisResult\<close> when the generated \<open>__init__\<close> has assigned them.\<close>

definition analysis_store :: "datetime \<Rightarrow> (string \<times> pyval) list \<Rightarrow> pyobj" where
  "analysis_store now kw =
     [''proposal_id'' \<mapsto> kwarg kw ''proposal_id'' PyNone,
      ''criteria_scores'' \<mapsto> kwarg kw ''criteria_scores'' PyNone,
      ''overall_score'' \<mapsto> kwarg kw ''overall_score'' PyNone,
      ''strengths'' \<mapsto> kwarg kw ''strengths'' (PyList []),
      ''concerns'' \<mapsto> kwarg kw ''concerns'' (PyList []),
      ''recommendation_rank'' \<mapsto> kwarg kw ''recommendation_rank'' PyNone,
      ''created_at'' \<mapsto> kwarg kw ''created_at'' (PyDatetime now),
      ''_frozen'' \<mapsto> PyBool False]"

section \<open>The language of a regular expression and the size format\<close>

text \<open>The strings a regular expression matches as a whole.\<close>

definition conc :: "string set \<Rightarrow> string set \<Rightarrow> string set" where
  "conc A B = {xs @ ys | xs ys. xs \<in> A \<and> ys \<in> B}"

inductive_set star :: "string set \<Rightarrow> string set" for A :: "string set" where
  star_nil: "[] \<in> star A"
| star_step: "x \<in> A \<Longrightarrow> w \<in> star A \<Longrightarrow> x @ w \<in> star A"

fun lang :: "rexp \<Rightarrow> string set" where
  "lang Empty = {}"
| "lang Eps = {[]}"
| "lang (Cls cs) = {[c] | c. c \<in> set cs}"
| "lang (Alt r s) = lang r \<union> lang s"
| "lang (Seq r s) = conc (lang r) (lang s)"
| "lang (Star r) = star (lang r)"

text \<open>
  The size format as the specification words it: the whole string is digits, an
  optional fraction, an optional unit letter and \<open>B\<close>, letters in either case.
\<close>

definition size_format :: rexp where
  "size_format =
     Seq (Plus digit)
       (Seq (Opt (Seq (Cls ''.'') (Plus digit)))
          (Seq (Opt (Cls ''KMGTkmgt'')) (Cls ''Bb'')))"

definition matches_size_format :: "string \<Rightarrow> bool" where
  "matches_size_format s = fullmatch size_format s"

text \<open>
  The number that the leading literal of a size string denotes, the multiplier of its
  unit, and their product truncated, in exact arithmetic.
\<close>

definition literal_value :: "string \<Rightarrow> rat" where
  "literal_value s =
     (let ds = takeWhile is_digit s
      in case dropWhile is_digit s of
           c # t \<Rightarrow>
             if c = CHR ''.'' then decimal_value ds (takeWhile is_digit t)
             else decimal_value ds []
         | [] \<Rightarrow> decimal_value ds [])"

definition unit_multiplier :: "string \<Rightarrow> int" where
  "unit_multiplier s =
     (case dropWhile (\<lambda>c. is_digit c \<or> c = CHR ''.'') s of
        c # r \<Rightarrow>
          if c \<in> set ''Kk'' then 1024
          else if c \<in> set ''Mm'' then 1024 ^ 2
          else if c \<in> set ''Gg'' then 1024 ^ 3
          else if c \<in> set ''Tt'' then 1024 ^ 4
          else 1
      | [] \<Rightarrow> 1)"

definition exact_size_in_bytes :: "string \<Rightarrow> int" where
  "exact_size_in_bytes s = \<lfloor>literal_value s * of_int (unit_multiplier s)\<rfloor>"

text \<open>The parts of a size string: a fraction is empty or a dot and digits.\<close>

definition is_fraction :: "string \<Rightarrow> bool" where
  "is_fraction fr =
     (case fr of [] \<Rightarrow> True | c # fs \<Rightarrow> c = CHR ''.'' \<and> fs \<noteq> [] \<and> list_all is_digit fs)"

definition is_digits :: "string \<Rightarrow> bool" where
  "is_digits ds = (ds \<noteq> [] \<and> list_all is_digit ds)"

section \<open>The weighted average as the specification words it\<close>

text \<open>
  The weights of the specification: 0.30 for price, 0.25 for the technical approach, 0.20
  for experience, 0.15 for the timeline, 0.10 for risk, and \<open>1 / N\<close> for any other
  criterion of a record with \<open>N\<close> criteria.
\<close>

definition named_weight :: "string \<Rightarrow> rat option" where
  "named_weight criterion =
     map_of [(''price'', 30 / 100), (''technical_approach'', 25 / 100),
             (''experience'', 20 / 100), (''timeline'', 15 / 100), (''risk'', 10 / 100)]
       criterion"

definition exact_weight :: "nat \<Rightarrow> string \<Rightarrow> rat" where
  "exact_weight n criterion =
     (case named_weight criterion of Some w \<Rightarrow> w | None \<Rightarrow> 1 / of_nat n)"

text \<open>The number a score stands for; \<open>True\<close> and \<open>False\<close> are the integers 1 and 0.\<close>

fun score_value :: "pyval \<Rightarrow> rat" where
  "score_value (PyInt i) = of_int i"
| "score_value (PyBool b) = (if b then 1 else 0)"
| "score_value (PyFloat (Finite q)) = q"
| "score_value v = 0"

text \<open>
  \<open>(\<Sigma> score * weight) / (\<Sigma> weight)\<close> in exact arithmetic, and a number rounded to two
  decimal places (a tie goes to the even digit, as \<open>round\<close> has it).
\<close>

definition exact_overall_score :: "(string \<times> pyval) list \<Rightarrow> rat" where
  "exact_overall_score items =
     sum_list (map (\<lambda>(c, s). score_value s * exact_weight (length items) c) items) /
     sum_list (map (\<lambda>(c, s). exact_weight (length items) c) items)"

definition round_2_places :: "rat \<Rightarrow> rat" where
  "round_2_places q = of_int (round_half_even (q * 100)) / 100"

text \<open>
  The same formula in float arithmetic: every weight, product, sum and the quotient is
  rounded to the nearest float, the sums are taken from 0.0 in the order of the mapping,
  and the quotient is rounded to two decimals by \<open>round\<close>.  \<open>fquot\<close> is the quotient of
  two floats, NaN where Python raises.
\<close>

definition fquot :: "pyfloat \<Rightarrow> pyfloat \<Rightarrow> pyfloat" where
  "fquot x y = (case fdiv x y of Inr q \<Rightarrow> q | Inl e \<Rightarrow> NaN)"

definition float_weight :: "nat \<Rightarrow> string \<Rightarrow> pyfloat" where
  "float_weight n criterion =
     (case named_weight criterion of
        Some w \<Rightarrow> round_to_double w
      | None \<Rightarrow> fquot (Finite 1) (round_to_double (of_nat n)))"

fun float_of_score :: "pyval \<Rightarrow> pyfloat" where
  "float_of_score (PyFloat x) = x"
| "float_of_score v = round_to_double (score_value v)"

definition fsum :: "pyfloat list \<Rightarrow> pyfloat" where
  "fsum xs = foldl fadd (Finite 0) xs"

definition float_overall_score :: "(string \<times> pyval) list \<Rightarrow> pyfloat" where
  "float_overall_score items =
     round2
       (fquot
          (fsum (map (\<lambda>(c, s). fmul (float_of_score s) (float_weight (length items) c)) items))
          (fsum (map (\<lambda>(c, s). float_weight (length items) c) items)))"

text \<open>A positive float: an infinity, or a float not below the smallest positive one.\<close>

definition positive_float :: "pyfloat \<Rightarrow> bool" where
  "positive_float x = (x = PosInf \<or> (\<exists>v. 2 powi (- 1074) \<le> v \<and> x = Finite v))"

section \<open>Properties\<close>

subsection \<open>RFPProposal: construction\<close>

lemma rfp_validate_store:
  "rfp_validate (rfp_store now kw) =
     validate_fields (kwarg kw ''id'' PyNone) (kwarg kw ''filename'' PyNone)
       (kwarg kw ''content'' PyNone) (kwarg kw ''analysis_score'' PyNone)"
  by (simp add: rfp_validate_def rfp_store_def)

lemma RFPProposal_eq:
  assumes "set (map fst kw) \<subseteq> set rfp_fields"
  shows "RFPProposal now kw =
     (case validate_fields (kwarg kw ''id'' PyNone) (kwarg kw ''filename'' PyNone)
       (kwarg kw ''content'' PyNone) (kwarg kw ''analysis_score'' PyNone) of
        Inl e \<Rightarrow> Inl e | Inr u \<Rightarrow> Inr (rfp_store now kw))"
  using assms unfolding RFPProposal_def rfp_validate_store by (auto simp: list_all_iff)

lemma validate_fields_strings:
  "i \<noteq> [] \<Longrightarrow> f \<noteq> [] \<Longrightarrow> c \<noteq> [] \<Longrightarrow>
   validate_fields (PyStr i) (PyStr f) (PyStr c) score = validate_strings f c score"
  by (simp add: validate_fields_def)

lemma validate_strings_traversal:
  "contains f ''../'' \<or> contains f [CHR 0x5C] \<Longrightarrow>
   validate_strings f c score = Inl (ModelValidationError InvalidFilenameFormat)"
  by (simp add: validate_strings_def)

lemma validate_strings_extension:
  "\<not> contains f ''../'' \<Longrightarrow> \<not> contains f [CHR 0x5C] \<Longrightarrow> \<not> endswith (lower f) ''.pdf'' \<Longrightarrow>
   validate_strings f c score = Inl (ModelValidationError OnlyPdfSupported)"
  by (simp add: validate_strings_def)

lemma validate_strings_content:
  "\<not> contains f ''../'' \<Longrightarrow> \<not> contains f [CHR 0x5C] \<Longrightarrow> endswith (lower f) ''.pdf'' \<Longrightarrow>
   validate_strings f c score =
     (if length c > 10000000 then Inl (ModelValidationError ContentTooLarge)
      else validate_analysis_score score)"
  by (simp add: validate_strings_def max_content_length_def)

lemma contains_nonempty: "contains f (x # xs) \<Longrightarrow> f \<noteq> []"
  by (auto simp: contains_def)

text \<open>
  Claim C6.  With a valid id and content, a filename that contains \<open>../\<close> or a backslash
  is rejected with the path-traversal error whatever its extension is, so the traversal
  check comes before the extension check; \<open>../../etc/passwd\<close> fails with the
  path-traversal error (kind SecurityRejected) and \<open>report.docx\<close> with the extension
  error (kind InvalidFormat).
\<close>

theorem filename_checks:
  assumes "set (map fst kw) \<subseteq> set rfp_fields"
    and "kwarg kw ''id'' PyNone = PyStr i" and "i \<noteq> []"
    and "kwarg kw ''content'' PyNone = PyStr c" and "c \<noteq> []"
    and "kwarg kw ''filename'' PyNone = PyStr f"
  shows "(contains f ''../'' \<or> contains f [CHR 0x5C] \<longrightarrow>
            RFPProposal now kw = Inl (ModelValidationError InvalidFilenameFormat)) \<and>
         (f = ''../../etc/passwd'' \<longrightarrow>
            RFPProposal now kw = Inl (ModelValidationError InvalidFilenameFormat)) \<and>
         (f = ''report.docx'' \<longrightarrow>
            RFPProposal now kw = Inl (ModelValidationError OnlyPdfSupported)) \<and>
         spec_kind (ModelValidationError InvalidFilenameFormat) = Some SecurityRejected \<and>
         spec_kind (ModelValidationError OnlyPdfSupported) = Some InvalidFormat"
proof -
  have eq: "f \<noteq> [] \<Longrightarrow> RFPProposal now kw =
      (case validate_strings f c (kwarg kw ''analysis_score'' PyNone) of
         Inl e \<Rightarrow> Inl e | Inr u \<Rightarrow> Inr (rfp_store now kw))"
    using assms by (simp add: RFPProposal_eq validate_fields_strings)
  have general: "RFPProposal now kw = Inl (ModelValidationError InvalidFilenameFormat)"
    if "contains f ''../'' \<or> contains f [CHR 0x5C]"
  proof -
    from that have "f \<noteq> []" by (auto dest: contains_nonempty)
    with that show ?thesis by (simp add: eq validate_strings_traversal)
  qed
  have trav: "contains ''../../etc/passwd'' ''../''"
    by (simp add: contains_def sublist_Cons_right)
  have docx: "\<not> contains ''report.docx'' ''../''" "\<not> contains ''report.docx'' [CHR 0x5C]"
    "\<not> endswith (lower ''report.docx'') ''.pdf''"
    by (simp_all add: contains_def sublist_Cons_right endswith_def lower_def lower_char_def
          suffix_to_prefix)
  have passwd: "RFPProposal now kw = Inl (ModelValidationError InvalidFilenameFormat)"
    if "f = ''../../etc/passwd''"
    using general trav that by simp
  have report: "RFPProposal now kw = Inl (ModelValidationError OnlyPdfSupported)"
    if "f = ''report.docx''"
    using eq that validate_strings_extension[OF docx] by simp
  show ?thesis using general passwd report by simp
qed

theorem filename_checks_witness:
  "RFPProposal example_time [(''id'', PyStr ''p1''), (''filename'', PyStr ''../../etc/passwd''),
       (''content'', PyStr ''text'')] = Inl (ModelValidationError InvalidFilenameFormat) \<and>
   RFPProposal example_time [(''id'', PyStr ''p1''), (''filename'', PyStr ''report.docx''),
       (''content'', PyStr ''text'')] = Inl (ModelValidationError OnlyPdfSupported) \<and>
   RFPProposal example_time [(''id'', PyStr ''p1''), (''filename'', PyStr (''a'' @ [CHR 0x5C] @ ''b.docx'')),
       (''content'', PyStr ''text'')] = Inl (ModelValidationError InvalidFilenameFormat)"
  using
    filename_checks [of "[(''id'', PyStr ''p1''), (''filename'', PyStr ''../../etc/passwd''),
       (''content'', PyStr ''text'')]" "''p1''" "''text''" "''../../etc/passwd''" example_time]
    filename_checks [of "[(''id'', PyStr ''p1''), (''filename'', PyStr ''report.docx''),
       (''content'', PyStr ''text'')]" "''p1''" "''text''" "''report.docx''" example_time]
    filename_checks [of "[(''id'', PyStr ''p1''),
       (''filename'', PyStr (''a'' @ [CHR 0x5C] @ ''b.docx'')),
       (''content'', PyStr ''text'')]" "''p1''" "''text''" "''a'' @ [CHR 0x5C] @ ''b.docx''" example_time]
  by (simp add: kwarg_def rfp_fields_def contains_def sublist_Cons_right)

text \<open>
  Claim C7.  With the other fields valid, a content of exactly 10,000,000 characters is
  accepted and one of 10,000,001 characters is rejected with the content-length error
  (kind SecurityRejected): the bound is inclusive.
\<close>

theorem content_length_bound:
  assumes "set (map fst kw) \<subseteq> set rfp_fields"
    and "kwarg kw ''id'' PyNone = PyStr i" and "i \<noteq> []"
    and "kwarg kw ''filename'' PyNone = PyStr f"
    and "\<not> contains f ''../''" and "\<not> contains f [CHR 0x5C]" and "endswith (lower f) ''.pdf''"
    and "validate_analysis_score (kwarg kw ''analysis_score'' PyNone) = Inr ()"
    and "kwarg kw ''content'' PyNone = PyStr c"
  shows "(length c = 10000000 \<longrightarrow> RFPProposal now kw = Inr (rfp_store now kw)) \<and>
         (length c = 10000001 \<longrightarrow>
            RFPProposal now kw = Inl (ModelValidationError ContentTooLarge)) \<and>
         (c \<noteq> [] \<longrightarrow> RFPProposal now kw =
            (if length c \<le> 10000000 then Inr (rfp_store now kw)
             else Inl (ModelValidationError ContentTooLarge))) \<and>
         spec_kind (ModelValidationError ContentTooLarge) = Some SecurityRejected"
proof -
  have "f \<noteq> []" using assms(7) by (auto simp: endswith_def lower_def)
  then have eq: "c \<noteq> [] \<Longrightarrow> RFPProposal now kw =
      (if length c \<le> 10000000 then Inr (rfp_store now kw)
       else Inl (ModelValidationError ContentTooLarge))"
    using assms
    by (simp add: RFPProposal_eq validate_fields_strings validate_strings_content)
  have "length c = 10000000 \<Longrightarrow> c \<noteq> []" "length c = 10000001 \<Longrightarrow> c \<noteq> []" by auto
  with eq show ?thesis by simp
qed

theorem content_length_bound_witness:
  "RFPProposal example_time [(''id'', PyStr ''p1''), (''filename'', PyStr ''boundary_file.pdf''),
       (''content'', PyStr (replicate 10000000 (CHR ''x'')))] =
     Inr (rfp_store example_time [(''id'', PyStr ''p1''), (''filename'', PyStr ''boundary_file.pdf''),
       (''content'', PyStr (replicate 10000000 (CHR ''x'')))]) \<and>
   RFPProposal example_time [(''id'', PyStr ''p1''), (''filename'', PyStr ''huge_file.pdf''),
       (''content'', PyStr (replicate 10000001 (CHR ''x'')))] =
     Inl (ModelValidationError ContentTooLarge)"
  using
    content_length_bound [of "[(''id'', PyStr ''p1''), (''filename'', PyStr ''boundary_file.pdf''),
       (''content'', PyStr (replicate 10000000 (CHR ''x'')))]" "''p1''" "''boundary_file.pdf''"
       "replicate 10000000 (CHR ''x'')" example_time]
    content_length_bound [of "[(''id'', PyStr ''p1''), (''filename'', PyStr ''huge_file.pdf''),
       (''content'', PyStr (replicate 10000001 (CHR ''x'')))]" "''p1''" "''huge_file.pdf''"
       "replicate 10000001 (CHR ''x'')" example_time]
  by (simp add: kwarg_def rfp_fields_def contains_def sublist_Cons_right endswith_def
        lower_def lower_char_def suffix_to_prefix)
subsection \<open>Rounding to a double\<close>

lemma bitlen_bounds_rat:
  assumes "0 < a"
  shows "(2::rat) powi (bitlen a - 1) \<le> of_int a" "(of_int a :: rat) < 2 powi bitlen a"
proof -
  from assms have b1: "1 \<le> bitlen a" by (auto simp: bitlen_alt_def)
  from bitlen_bounds[OF assms] have lo: "2 ^ nat (bitlen a - 1) \<le> a" and hi: "a < 2 ^ nat (bitlen a)"
    by auto
  from lo have "(of_int (2 ^ nat (bitlen a - 1)) :: rat) \<le> of_int a"
    by (simp only: of_int_le_iff)
  then show "(2::rat) powi (bitlen a - 1) \<le> of_int a"
    using b1 by (simp add: power_int_def)
  from hi have "(of_int a :: rat) < of_int (2 ^ nat (bitlen a))"
    by (simp only: of_int_less_iff)
  then show "(of_int a :: rat) < 2 powi bitlen a"
    using b1 by (simp add: power_int_def)
qed

lemma ilog2_bounds:
  assumes "0 < q"
  shows "2 powi ilog2 q \<le> q" and "q < 2 powi (ilog2 q + 1)"
proof -
  obtain a b where ab: "quotient_of q = (a, b)" by (cases "quotient_of q")
  then have b: "0 < b" and q: "q = of_int a / of_int b"
    by (auto simp: quotient_of_denom_pos quotient_of_div)
  with assms have a: "0 < a" by (simp add: zero_less_divide_iff)
  define e where "e = bitlen a - bitlen b"
  have lo: "(2::rat) powi (e - 1) < q"
  proof -
    have "(2::rat) powi (e - 1) = 2 powi (bitlen a - 1) / 2 powi bitlen b"
      by (simp add: e_def power_int_diff)
    also have "\<dots> \<le> of_int a / 2 powi bitlen b"
      using bitlen_bounds_rat(1)[OF a] by (simp add: divide_right_mono)
    also have "\<dots> < of_int a / of_int b"
      using bitlen_bounds_rat(2)[OF b] a b by (simp add: divide_strict_left_mono)
    finally show ?thesis by (simp add: q)
  qed
  have hi: "q < (2::rat) powi (e + 1)"
  proof -
    have "q < 2 powi bitlen a / of_int b"
      using bitlen_bounds_rat(2)[OF a] b by (simp add: q divide_strict_right_mono)
    also have "\<dots> \<le> 2 powi bitlen a / 2 powi (bitlen b - 1)"
      using bitlen_bounds_rat(1)[OF b] b by (simp add: divide_left_mono)
    also have "\<dots> = 2 powi (e + 1)"
      by (simp add: e_def power_int_diff power_int_add)
    finally show ?thesis .
  qed
  have il: "ilog2 q = (if 2 powi e \<le> q then e else e - 1)"
    by (simp add: ilog2_def ab e_def)
  show "2 powi ilog2 q \<le> q" using lo by (simp add: il)
  show "q < 2 powi (ilog2 q + 1)" using hi by (simp add: il)
qed

lemma pow2_less_imp_less:
  assumes "(2::rat) powi a < 2 powi b"
  shows "a < b"
proof (rule ccontr)
  assume "\<not> a < b"
  then have "b \<le> a" by simp
  then have "(2::rat) powi b \<le> 2 powi a" by (intro power_int_increasing) auto
  with assms show False by simp
qed

lemma ilog2_unique:
  assumes "2 powi e \<le> q" and "q < 2 powi (e + 1)"
  shows "ilog2 q = e"
proof -
  have pos: "0 < q" using assms(1) by (rule less_le_trans[rotated]) simp
  from ilog2_bounds[OF pos] have lo: "2 powi ilog2 q \<le> q" and hi: "q < 2 powi (ilog2 q + 1)" .
  have "(2::rat) powi e < 2 powi (ilog2 q + 1)" using assms(1) hi by simp
  then have 1: "e < ilog2 q + 1" by (rule pow2_less_imp_less)
  have "(2::rat) powi ilog2 q < 2 powi (e + 1)" using assms(2) lo by simp
  then have 2: "ilog2 q < e + 1" by (rule pow2_less_imp_less)
  from 1 2 show ?thesis by simp
qed

lemma round_half_even_near:
  assumes "of_int m - 1 / 2 < x" and "x < of_int m + 1 / 2"
  shows "round_half_even x = m"
proof (cases "of_int m \<le> x")
  case True
  then have f: "\<lfloor>x\<rfloor> = m" using assms(2) by (simp add: floor_unique)
  then show ?thesis using assms(2) by (simp add: round_half_even_def Let_def)
next
  case False
  then have f: "\<lfloor>x\<rfloor> = m - 1" using assms(1) by (intro floor_unique) auto
  then show ?thesis using assms(1) by (auto simp add: round_half_even_def Let_def)
qed

lemma round_half_even_tie:
  assumes "x = of_int m + 1 / 2"
  shows "round_half_even x = (if even m then m else m + 1)"
proof -
  have f: "\<lfloor>x\<rfloor> = m" using assms by (intro floor_unique) auto
  then show ?thesis using assms by (simp add: round_half_even_def Let_def)
qed

lemma round_half_even_of_int: "round_half_even (of_int m) = m"
  by (rule round_half_even_near) simp_all

text \<open>Evaluating a rounding: give the exponent and the mantissa.\<close>

lemma round_to_double_eval:
  assumes "0 < q" and "2 powi e \<le> q" and "q < 2 powi (e + 1)"
    and "p = max e (- 1022) - 52"
    and "round_half_even (q / 2 powi p) = m"
    and "of_int m * 2 powi p < (2::rat) powi 1024"
  shows "round_to_double q = Finite (of_int m * 2 powi p)"
proof -
  have "ilog2 \<bar>q\<bar> = e" using assms by (simp add: ilog2_unique)
  then show ?thesis using assms by (simp add: round_to_double_def Let_def)
qed

lemma round_to_double_near:
  assumes "2 powi e \<le> q" and "q < 2 powi (e + 1)"
    and "p = max e (- 1022) - 52"
    and "of_int m - 1 / 2 < q / 2 powi p" and "q / 2 powi p < of_int m + 1 / 2"
    and "of_int m * 2 powi p < (2::rat) powi 1024"
    and "v = of_int m * 2 powi p"
  shows "round_to_double q = Finite v"
proof -
  have pos: "0 < q" using assms(1) by (rule less_le_trans[rotated]) simp
  have "round_half_even (q / 2 powi p) = m"
    using assms(4,5) by (rule round_half_even_near)
  with pos assms show ?thesis by (simp add: round_to_double_eval[where e=e and m=m])
qed

text \<open>A value that is a double already is not changed.\<close>

lemma round_to_double_exact_pos:
  assumes "0 < m" and "m < 2 ^ 53" and "- 1074 \<le> p" and "p \<le> 971"
    and "q = of_int m * 2 powi p"
  shows "round_to_double q = Finite q"
proof -
  have pos: "0 < q" using assms by simp
  define e where "e = ilog2 q"
  define p' where "p' = max e (- 1022) - 52"
  have m53: "(of_int m :: rat) < 2 powi 53"
  proof -
    from assms(2) have "(of_int m :: rat) < of_int (2 ^ 53)" by (simp only: of_int_less_iff)
    then show ?thesis by simp
  qed
  have q53: "q < 2 powi (53 + p)"
  proof -
    have "q < 2 powi 53 * 2 powi p"
      unfolding assms(5) using m53 by (rule mult_strict_right_mono) simp
    then show ?thesis by (simp add: power_int_add)
  qed
  have "2 powi e \<le> q" using ilog2_bounds(1)[OF pos] by (simp add: e_def)
  also note q53
  finally have "e < 53 + p" by (rule pow2_less_imp_less)
  then have le: "p' \<le> p" using assms(3) by (simp add: p'_def)
  have "q / 2 powi p' = of_int m * 2 powi (p - p')"
    by (simp add: assms(5) power_int_diff)
  also have "\<dots> = of_int (m * 2 ^ nat (p - p'))"
    using le by (simp add: power_int_def)
  finally have "round_half_even (q / 2 powi p') = m * 2 ^ nat (p - p')"
    by (simp only: round_half_even_of_int)
  moreover have v: "of_int (m * 2 ^ nat (p - p')) * 2 powi p' = q"
  proof -
    have "(of_int (m * 2 ^ nat (p - p')) :: rat) = of_int m * 2 powi (p - p')"
      using le by (simp add: power_int_def)
    then have "of_int (m * 2 ^ nat (p - p')) * 2 powi p'
        = of_int m * ((2::rat) powi (p - p') * 2 powi p')"
      by (simp only: mult.assoc)
    also have "(2::rat) powi (p - p') * 2 powi p' = 2 powi p"
      by (simp flip: power_int_add)
    finally show ?thesis by (simp add: assms(5))
  qed
  moreover have "q < 2 powi 1024"
  proof -
    note q53
    also have "(2::rat) powi (53 + p) \<le> 2 powi 1024"
      using assms(4) by (intro power_int_increasing) auto
    finally show ?thesis .
  qed
  ultimately show ?thesis
    using pos by (simp add: round_to_double_def Let_def e_def[symmetric] p'_def[symmetric])
qed
subsection \<open>Loading the configuration\<close>

lemma round_to_double_numeral:
  "(numeral k :: int) < 2 ^ 53 \<Longrightarrow> round_to_double (numeral k) = Finite (numeral k)"
  using round_to_double_exact_pos[of "numeral k" 0 "numeral k"] by simp

lemma Config_result:
  "Config ld dotenv urandom os_environ =
     (let environ = effective_environ ld dotenv os_environ;
          secret = get_optional_env environ ''FLASK_SECRET_KEY'' (generate_secret_key urandom);
          sz = get_optional_env environ ''MAX_FILE_SIZE'' DEFAULT_MAX_FILE_SIZE;
          types = get_optional_env environ ''SUPPORTED_FILE_TYPES'' DEFAULT_SUPPORTED_FILE_TYPES
      in case get_required_env environ ''ANTHROPIC_API_KEY'' of
           Inl e \<Rightarrow> Inl e
         | Inr key \<Rightarrow>
             (case parse_file_size_to_bytes sz of
                Inl e \<Rightarrow> Inl e
              | Inr n \<Rightarrow>
                  if \<not> startswith key ''sk-'' then Inl (ConfigError ApiKeyMustStartWithSk)
                  else if \<not> is_valid_file_size sz
                    then Inl (ConfigError (InvalidMaxFileSizeFormat sz))
                  else if \<not> startswith types ''.''
                    then Inl (ConfigError (SupportedTypesMustStartWithDot types))
                  else Inr (config_object key secret sz types n)))"
  by (simp add: Config_def and_then_def config_setattr_def is_frozen_def get_str_attr_def
        config_validate_def config_object_def Let_def split: sum.splits)

lemma Config_success:
  assumes "Config ld dotenv urandom os_environ = Inr cfg"
    and "environ = effective_environ ld dotenv os_environ"
  shows "\<exists>raw n. environ ''ANTHROPIC_API_KEY'' = Some raw \<and> strip raw \<noteq> [] \<and>
           startswith (strip raw) ''sk-'' \<and>
           parse_file_size_to_bytes
             (get_optional_env environ ''MAX_FILE_SIZE'' DEFAULT_MAX_FILE_SIZE) = Inr n \<and>
           cfg = config_object (strip raw)
             (get_optional_env environ ''FLASK_SECRET_KEY'' (generate_secret_key urandom))
             (get_optional_env environ ''MAX_FILE_SIZE'' DEFAULT_MAX_FILE_SIZE)
             (get_optional_env environ ''SUPPORTED_FILE_TYPES'' DEFAULT_SUPPORTED_FILE_TYPES) n"
  using assms
  by (auto simp add: Config_result Let_def get_required_env_def
        split: sum.splits option.splits if_splits)

lemma is_valid_10MB: "is_valid_file_size ''10MB''"
  by (simp add: is_valid_file_size_def upper_def upper_char_def file_size_pattern_def
        digit_def Plus_def Opt_def dollar_def)

lemma parse_10MB: "parse_file_size_to_bytes ''10MB'' = Inr 10485760"
proof -
  have g: "match_groups (upper ''10MB'') = Some (''10'', ''MB'')"
    by (simp add: match_groups_def scan_number_def is_digit_def upper_def upper_char_def)
  have f: "float_of_literal ''10'' = Inr (Finite 10)"
    by (simp add: float_of_literal_def is_digit_def decimal_value_def int_of_digits_def
          digit_value_def round_to_double_numeral)
  have k: "float_times_int (Finite 10) (1024 ^ 2) = Inr (Finite 10485760)"
    by (simp add: float_times_int_def float_of_int_def round_to_double_numeral)
  have u: "map_of FILE_SIZE_UNITS ''MB'' = Some (1024 ^ 2)"
    by (simp add: FILE_SIZE_UNITS_def)
  show ?thesis
    unfolding parse_file_size_to_bytes_def size_in_bytes_def
    by (simp add: is_valid_10MB g f u k del: power_numeral map_of.simps)
qed

lemma length_hexlify: "length (hexlify bs) = 2 * length bs"
  by (induction bs) (simp_all add: hexlify_def)

lemma hex_digit_in: "hex_digit n \<in> set ''0123456789abcdef''"
  unfolding hex_digit_def by (rule nth_mem) simp

lemma set_hexlify: "set (hexlify bs) \<subseteq> set ''0123456789abcdef''"
proof (induction bs)
  case Nil
  then show ?case by (simp add: hexlify_def)
next
  case (Cons b bs)
  have "hexlify (b # bs) = [hex_digit (of_char b div 16), hex_digit (of_char b mod 16)] @ hexlify bs"
    by (simp add: hexlify_def)
  then show ?case
    using Cons hex_digit_in[of "of_char b div 16"] hex_digit_in[of "of_char b mod 16"]
    by (simp del: set_simps list.set add: set_append) (simp add: subset_iff)
qed

lemma secret_key_shape:
  "length (generate_secret_key urandom) = 64 \<and>
   set (generate_secret_key urandom) \<subseteq> set ''0123456789abcdef''"
  by (simp add: generate_secret_key_def token_hex_def length_hexlify set_hexlify
        del: set_simps list.set)

lemma get_optional_env_cases:
  "(environ key = None \<longrightarrow> get_optional_env environ key dflt = dflt) \<and>
   (\<forall>raw. environ key = Some raw \<longrightarrow>
      get_optional_env environ key dflt = (if strip raw = [] then dflt else strip raw))"
  by (simp add: get_optional_env_def)

lemma scenario_loads:
  "Config False None urandom [''ANTHROPIC_API_KEY'' \<mapsto> ''sk-abc'', ''MAX_FILE_SIZE'' \<mapsto> ''10MB''] =
     Inr (config_object ''sk-abc'' (generate_secret_key urandom) ''10MB'' ''.pdf'' 10485760)"
proof -
  have s1: "strip ''sk-abc'' = ''sk-abc''" "strip ''10MB'' = ''10MB''"
    by (simp_all add: strip_def is_space_def)
  show ?thesis
    by (simp add: Config_result effective_environ_def get_required_env_def
          get_optional_env_def s1 DEFAULT_MAX_FILE_SIZE_def DEFAULT_SUPPORTED_FILE_TYPES_def
          parse_10MB is_valid_10MB startswith_def)
qed

text \<open>
  Claim C9.  In a configuration that has loaded, the session secret, the maximum file
  size and the supported file types hold the value of \<open>_get_optional_env\<close> for their
  variable and default (\<open>10MB\<close>, \<open>.pdf\<close>, a generated key of 64 hexadecimal digits):
  the default when the variable is absent or blank after trimming, the trimmed value
  otherwise; \<open>max_file_size_bytes\<close> is what the size parser returns for the maximum
  file size.  The environment with the API key \<open>sk-abc\<close> and \<open>MAX_FILE_SIZE = 10MB\<close> loads,
  with 10485760 bytes.
\<close>

theorem config_optional_settings:
  assumes "Config ld dotenv urandom os_environ = Inr cfg"
    and "environ = effective_environ ld dotenv os_environ"
  shows
    "cfg ''flask_secret_key'' =
       Some (PyStr (get_optional_env environ ''FLASK_SECRET_KEY'' (generate_secret_key urandom))) \<and>
     cfg ''max_file_size'' = Some (PyStr (get_optional_env environ ''MAX_FILE_SIZE'' ''10MB'')) \<and>
     cfg ''supported_file_types'' =
       Some (PyStr (get_optional_env environ ''SUPPORTED_FILE_TYPES'' ''.pdf'')) \<and>
     (\<forall>key dflt.
        (environ key = None \<longrightarrow> get_optional_env environ key dflt = dflt) \<and>
        (\<forall>raw. environ key = Some raw \<longrightarrow>
           get_optional_env environ key dflt = (if strip raw = [] then dflt else strip raw))) \<and>
     length (generate_secret_key urandom) = 64 \<and>
     set (generate_secret_key urandom) \<subseteq> set ''0123456789abcdef'' \<and>
     (\<exists>n. parse_file_size_to_bytes (get_optional_env environ ''MAX_FILE_SIZE'' ''10MB'') = Inr n \<and>
          cfg ''max_file_size_bytes'' = Some (PyInt n)) \<and>
     (\<forall>u. \<exists>c. Config False None u
                 [''ANTHROPIC_API_KEY'' \<mapsto> ''sk-abc'', ''MAX_FILE_SIZE'' \<mapsto> ''10MB''] = Inr c \<and>
               c ''max_file_size_bytes'' = Some (PyInt 10485760))"
proof -
  from Config_success[OF assms] obtain raw n where
    n: "parse_file_size_to_bytes
          (get_optional_env environ ''MAX_FILE_SIZE'' DEFAULT_MAX_FILE_SIZE) = Inr n"
    and cfg: "cfg = config_object (strip raw)
             (get_optional_env environ ''FLASK_SECRET_KEY'' (generate_secret_key urandom))
             (get_optional_env environ ''MAX_FILE_SIZE'' DEFAULT_MAX_FILE_SIZE)
             (get_optional_env environ ''SUPPORTED_FILE_TYPES'' DEFAULT_SUPPORTED_FILE_TYPES) n"
    by blast
  have fields:
    "cfg ''flask_secret_key'' =
       Some (PyStr (get_optional_env environ ''FLASK_SECRET_KEY'' (generate_secret_key urandom)))"
    "cfg ''max_file_size'' = Some (PyStr (get_optional_env environ ''MAX_FILE_SIZE'' ''10MB''))"
    "cfg ''supported_file_types'' =
       Some (PyStr (get_optional_env environ ''SUPPORTED_FILE_TYPES'' ''.pdf''))"
    "cfg ''max_file_size_bytes'' = Some (PyInt n)"
    by (simp_all add: cfg config_object_def DEFAULT_MAX_FILE_SIZE_def
          DEFAULT_SUPPORTED_FILE_TYPES_def)
  have bytes: "\<exists>n. parse_file_size_to_bytes (get_optional_env environ ''MAX_FILE_SIZE'' ''10MB'') = Inr n \<and>
          cfg ''max_file_size_bytes'' = Some (PyInt n)"
    using n fields(4) by (simp add: DEFAULT_MAX_FILE_SIZE_def)
  have scen: "\<forall>u. \<exists>c. Config False None u
                 [''ANTHROPIC_API_KEY'' \<mapsto> ''sk-abc'', ''MAX_FILE_SIZE'' \<mapsto> ''10MB''] = Inr c \<and>
               c ''max_file_size_bytes'' = Some (PyInt 10485760)"
    by (simp add: scenario_loads config_object_def)
  show ?thesis
    using fields(1,2,3) get_optional_env_cases secret_key_shape bytes scen by blast
qed

theorem config_optional_settings_witness:
  "Config False None (\<lambda>n. CHR 0x00)
       [''ANTHROPIC_API_KEY'' \<mapsto> ''sk-abc'', ''MAX_FILE_SIZE'' \<mapsto> ''10MB''] =
     Inr (config_object ''sk-abc'' (generate_secret_key (\<lambda>n. CHR 0x00)) ''10MB'' ''.pdf'' 10485760) \<and>
   config_object ''sk-abc'' (generate_secret_key (\<lambda>n. CHR 0x00)) ''10MB'' ''.pdf'' 10485760
       ''max_file_size'' = Some (PyStr ''10MB'') \<and>
   config_object ''sk-abc'' (generate_secret_key (\<lambda>n. CHR 0x00)) ''10MB'' ''.pdf'' 10485760
       ''supported_file_types'' = Some (PyStr ''.pdf'') \<and>
   config_object ''sk-abc'' (generate_secret_key (\<lambda>n. CHR 0x00)) ''10MB'' ''.pdf'' 10485760
       ''max_file_size_bytes'' = Some (PyInt 10485760) \<and>
   length (generate_secret_key (\<lambda>n. CHR 0x00)) = 64"
proof -
  have load: "Config False None (\<lambda>n. CHR 0x00)
       [''ANTHROPIC_API_KEY'' \<mapsto> ''sk-abc'', ''MAX_FILE_SIZE'' \<mapsto> ''10MB''] =
     Inr (config_object ''sk-abc'' (generate_secret_key (\<lambda>n. CHR 0x00)) ''10MB'' ''.pdf'' 10485760)"
    by (rule scenario_loads)
  have env: "[''ANTHROPIC_API_KEY'' \<mapsto> ''sk-abc'', ''MAX_FILE_SIZE'' \<mapsto> ''10MB''] =
     effective_environ False None [''ANTHROPIC_API_KEY'' \<mapsto> ''sk-abc'', ''MAX_FILE_SIZE'' \<mapsto> ''10MB'']"
    by (simp add: effective_environ_def)
  have s1: "strip ''10MB'' = ''10MB''"
    by (simp add: strip_def is_space_def)
  show ?thesis
    using config_optional_settings[OF load env] load
    by (simp add: get_optional_env_def s1 parse_10MB)
qed
subsection \<open>Timestamps: reading back what \<open>isoformat\<close> writes\<close>

lemma length_digits [simp]: "length (digits w n) = w"
  by (induction w arbitrary: n) simp_all





lemma int_of_digits_snoc:
  "int_of_digits (xs @ [c]) = 10 * int_of_digits xs + digit_value c"
  by (simp add: int_of_digits_def)






lemma fraction_other:
  "r = [] \<or> hd r \<noteq> CHR ''.'' \<Longrightarrow> fraction r = Some (0, r)"
  by (cases r) (auto simp add: fraction_def)





lemma takeWhile_run:
  assumes "list_all P xs" and "ys = [] \<or> \<not> P (hd ys)"
  shows "takeWhile P (xs @ ys) = xs" and "dropWhile P (xs @ ys) = ys"
proof -
  have t: "takeWhile P ys = []" and d: "dropWhile P ys = ys"
    using assms(2) by (cases ys; simp)+
  have a: "\<And>x. x \<in> set xs \<Longrightarrow> P x" using assms(1) by (simp add: list_all_iff)
  show "takeWhile P (xs @ ys) = xs" using a by (simp add: takeWhile_append2 t)
  show "dropWhile P (xs @ ys) = ys" using a by (simp add: dropWhile_append2 d)
qed






subsection \<open>Assignments to finished objects\<close>

lemma AnalysisResult_frozen:
  assumes "AnalysisResult now kw = Inr a"
  shows "is_frozen a"
  using assms
  by (auto simp add: AnalysisResult_def analysis_post_init_def and_then_def is_frozen_def
        split: if_splits sum.splits)

lemma Config_frozen:
  assumes "Config ld dotenv urandom os_environ = Inr cfg"
  shows "is_frozen cfg"
proof -
  from Config_success[OF assms refl] obtain key secret sz types n
    where "cfg = config_object key secret sz types n" by blast
  then show ?thesis by (simp add: config_object_def is_frozen_def)
qed


text \<open>
  Claim C1, as the code has it.  An assignment to any attribute of a loaded \<open>Config\<close> or
  of a constructed \<open>AnalysisResult\<close> raises the immutability error of its class and
  leaves the object as it was.  \<open>RFPProposal\<close> has no write guard: an assignment to any
  attribute of a constructed proposal succeeds and stores the value.
\<close>

theorem assignment_after_construction:
  "(Config ld dotenv urandom os_environ = Inr cfg \<longrightarrow>
      assign config_setattr cfg name v = (Some (ConfigError (ConfigurationIsFrozen name)), cfg)) \<and>
   (AnalysisResult now kw = Inr a \<longrightarrow>
      assign analysis_setattr a name v =
        (Some (ModelValidationError AnalysisResultImmutable), a)) \<and>
   spec_kind (ConfigError (ConfigurationIsFrozen name)) = Some ImmutableViolation \<and>
   spec_kind (ModelValidationError AnalysisResultImmutable) = Some ImmutableViolation \<and>
   (RFPProposal now kw' = Inr p \<longrightarrow> assign rfp_setattr p name v = (None, p(name \<mapsto> v)))"
  by (simp add: assign_def config_setattr_def analysis_setattr_def rfp_setattr_def
        Config_frozen AnalysisResult_frozen)

lemma example_proposal:
  "RFPProposal example_time
     [(''id'', PyStr ''prop-001''), (''filename'', PyStr ''test.pdf''),
      (''content'', PyStr ''test content'')] =
   Inr (rfp_store example_time
     [(''id'', PyStr ''prop-001''), (''filename'', PyStr ''test.pdf''),
      (''content'', PyStr ''test content'')])"
  by (simp add: RFPProposal_def rfp_fields_def rfp_validate_def rfp_store_def kwarg_def
        validate_fields_def validate_strings_def contains_def sublist_Cons_right endswith_def
        lower_def lower_char_def suffix_to_prefix max_content_length_def)

lemma example_analysis:
  "AnalysisResult example_time
     [(''proposal_id'', PyStr ''prop-001''), (''overall_score'', PyFloat (Finite 85)),
      (''criteria_scores'', PyDict [(''price'', PyFloat (Finite 90))])] =
   Inr [''proposal_id'' \<mapsto> PyStr ''prop-001'',
        ''criteria_scores'' \<mapsto> PyDict [(''price'', PyFloat (Finite 90))],
        ''overall_score'' \<mapsto> PyFloat (Finite 85),
        ''strengths'' \<mapsto> PyList [], ''concerns'' \<mapsto> PyList [],
        ''recommendation_rank'' \<mapsto> PyNone, ''created_at'' \<mapsto> PyDatetime example_time,
        ''_frozen'' \<mapsto> PyBool True]"
  by (simp add: AnalysisResult_def analysis_fields_def analysis_init_values_def kwarg_def
        analysis_setattr_def is_frozen_def and_then_def analysis_post_init_def
        analysis_validate_def analysis_validate_fields_def analysis_score_step_def)

theorem assignment_after_construction_witness:
  "assign config_setattr
     (config_object ''sk-abc'' (generate_secret_key (\<lambda>n. CHR 0x00)) ''10MB'' ''.pdf'' 10485760)
     ''anthropic_api_key'' (PyStr ''sk-new-key'') =
     (Some (ConfigError (ConfigurationIsFrozen ''anthropic_api_key'')),
      config_object ''sk-abc'' (generate_secret_key (\<lambda>n. CHR 0x00)) ''10MB'' ''.pdf'' 10485760) \<and>
   fst (assign analysis_setattr
     [''proposal_id'' \<mapsto> PyStr ''prop-001'',
      ''criteria_scores'' \<mapsto> PyDict [(''price'', PyFloat (Finite 90))],
      ''overall_score'' \<mapsto> PyFloat (Finite 85),
      ''strengths'' \<mapsto> PyList [], ''concerns'' \<mapsto> PyList [],
      ''recommendation_rank'' \<mapsto> PyNone, ''created_at'' \<mapsto> PyDatetime example_time,
      ''_frozen'' \<mapsto> PyBool True]
     ''overall_score'' (PyFloat (Finite 95))) =
     Some (ModelValidationError AnalysisResultImmutable) \<and>
   assign rfp_setattr
     (rfp_store example_time
        [(''id'', PyStr ''prop-001''), (''filename'', PyStr ''test.pdf''),
         (''content'', PyStr ''test content'')])
     ''filename'' (PyStr ''other.pdf'') =
     (None, (rfp_store example_time
        [(''id'', PyStr ''prop-001''), (''filename'', PyStr ''test.pdf''),
         (''content'', PyStr ''test content'')])(''filename'' \<mapsto> PyStr ''other.pdf''))"
  using assignment_after_construction
    [where ld = False and dotenv = None and urandom = "\<lambda>n. CHR 0x00"
       and os_environ = "[''ANTHROPIC_API_KEY'' \<mapsto> ''sk-abc'', ''MAX_FILE_SIZE'' \<mapsto> ''10MB'']"
       and cfg = "config_object ''sk-abc'' (generate_secret_key (\<lambda>n. CHR 0x00)) ''10MB''
          ''.pdf'' 10485760"
       and name = "''anthropic_api_key''" and v = "PyStr ''sk-new-key''"]
    assignment_after_construction
    [where name = "''overall_score''" and v = "PyFloat (Finite 95)" and now = example_time
       and kw = "[(''proposal_id'', PyStr ''prop-001''), (''overall_score'', PyFloat (Finite 85)),
          (''criteria_scores'', PyDict [(''price'', PyFloat (Finite 90))])]"
       and a = "[''proposal_id'' \<mapsto> PyStr ''prop-001'',
          ''criteria_scores'' \<mapsto> PyDict [(''price'', PyFloat (Finite 90))],
          ''overall_score'' \<mapsto> PyFloat (Finite 85),
          ''strengths'' \<mapsto> PyList [], ''concerns'' \<mapsto> PyList [],
          ''recommendation_rank'' \<mapsto> PyNone, ''created_at'' \<mapsto> PyDatetime example_time,
          ''_frozen'' \<mapsto> PyBool True]"]
    assignment_after_construction
    [where name = "''filename''" and v = "PyStr ''other.pdf''" and now = example_time
       and kw' = "[(''id'', PyStr ''prop-001''), (''filename'', PyStr ''test.pdf''),
          (''content'', PyStr ''test content'')]"
       and p = "rfp_store example_time
          [(''id'', PyStr ''prop-001''), (''filename'', PyStr ''test.pdf''),
           (''content'', PyStr ''test content'')]"]
    scenario_loads[of "\<lambda>n. CHR 0x00"] example_analysis example_proposal
  by simp

text \<open>
  The claim as stated fails for \<open>RFPProposal\<close>: the assignment to \<open>filename\<close> of a
  constructed proposal raises nothing and changes the attribute.
\<close>

theorem proposal_assignment_counterexample:
  "RFPProposal example_time
     [(''id'', PyStr ''prop-001''), (''filename'', PyStr ''test.pdf''),
      (''content'', PyStr ''test content'')] =
   Inr (rfp_store example_time
     [(''id'', PyStr ''prop-001''), (''filename'', PyStr ''test.pdf''),
      (''content'', PyStr ''test content'')]) \<and>
   fst (assign rfp_setattr
     (rfp_store example_time
        [(''id'', PyStr ''prop-001''), (''filename'', PyStr ''test.pdf''),
         (''content'', PyStr ''test content'')])
     ''filename'' (PyStr ''other.pdf'')) = None \<and>
   snd (assign rfp_setattr
     (rfp_store example_time
        [(''id'', PyStr ''prop-001''), (''filename'', PyStr ''test.pdf''),
         (''content'', PyStr ''test content'')])
     ''filename'' (PyStr ''other.pdf'')) ''filename'' = Some (PyStr ''other.pdf'') \<and>
   rfp_store example_time
     [(''id'', PyStr ''prop-001''), (''filename'', PyStr ''test.pdf''),
      (''content'', PyStr ''test content'')] ''filename'' = Some (PyStr ''test.pdf'')"
  by (simp add: example_proposal assign_def rfp_setattr_def) (simp add: rfp_store_def kwarg_def)
subsection \<open>Serialization round trips\<close>







lemma set_all_analysis_init:
  "set_all analysis_setattr Map.empty (analysis_init_values now kw) = Inr (analysis_store now kw)"
  by (simp add: analysis_init_values_def analysis_setattr_def is_frozen_def analysis_store_def)


lemma AnalysisResult_required:
  assumes "AnalysisResult now kw = Inr a"
  shows "map_of kw ''proposal_id'' \<noteq> None" and "map_of kw ''criteria_scores'' \<noteq> None"
  using assms by (auto simp add: AnalysisResult_def split: if_splits)




subsection \<open>The matcher decides the language\<close>

lemma conc_nil_iff: "[] \<in> conc A B \<longleftrightarrow> [] \<in> A \<and> [] \<in> B"
  by (auto simp add: conc_def)

lemma nullable_lang: "nullable r \<longleftrightarrow> [] \<in> lang r"
  by (induction r) (auto simp add: conc_nil_iff intro: star.star_nil)

lemma cons_in_conc:
  "c # w \<in> conc A B \<longleftrightarrow>
     ([] \<in> A \<and> c # w \<in> B) \<or> (\<exists>u v. w = u @ v \<and> c # u \<in> A \<and> v \<in> B)"
proof
  assume "c # w \<in> conc A B"
  then obtain xs ys where split: "c # w = xs @ ys" "xs \<in> A" "ys \<in> B"
    by (auto simp add: conc_def)
  show "([] \<in> A \<and> c # w \<in> B) \<or> (\<exists>u v. w = u @ v \<and> c # u \<in> A \<and> v \<in> B)"
  proof (cases xs)
    case Nil
    with split show ?thesis by simp
  next
    case (Cons x xs')
    with split have "w = xs' @ ys" "c # xs' \<in> A" by simp_all
    with split(3) show ?thesis by blast
  qed
next
  assume "([] \<in> A \<and> c # w \<in> B) \<or> (\<exists>u v. w = u @ v \<and> c # u \<in> A \<and> v \<in> B)"
  then show "c # w \<in> conc A B"
  proof
    assume "[] \<in> A \<and> c # w \<in> B"
    then have "[] @ (c # w) \<in> conc A B" unfolding conc_def by blast
    then show ?thesis by simp
  next
    assume "\<exists>u v. w = u @ v \<and> c # u \<in> A \<and> v \<in> B"
    then obtain u v where "w = u @ v" "c # u \<in> A" "v \<in> B" by blast
    then have "(c # u) @ v \<in> conc A B" unfolding conc_def by blast
    with \<open>w = u @ v\<close> show ?thesis by simp
  qed
qed

lemma cons_in_star:
  "c # w \<in> star A \<longleftrightarrow> (\<exists>u v. w = u @ v \<and> c # u \<in> A \<and> v \<in> star A)"
proof
  assume "c # w \<in> star A"
  then show "\<exists>u v. w = u @ v \<and> c # u \<in> A \<and> v \<in> star A"
  proof (induction "c # w" rule: star.induct)
    case (star_step x w')
    show ?case
    proof (cases x)
      case Nil
      with star_step show ?thesis by simp
    next
      case (Cons y ys)
      with star_step(1,2,4) show ?thesis by auto
    qed
  qed
next
  assume "\<exists>u v. w = u @ v \<and> c # u \<in> A \<and> v \<in> star A"
  then obtain u v where "w = u @ v" "c # u \<in> A" "v \<in> star A" by blast
  then have "(c # u) @ v \<in> star A" by (intro star.star_step)
  with \<open>w = u @ v\<close> show "c # w \<in> star A" by simp
qed

lemma in_conc_iff: "w \<in> conc A B \<longleftrightarrow> (\<exists>u v. w = u @ v \<and> u \<in> A \<and> v \<in> B)"
  by (auto simp add: conc_def)

lemma lang_deriv: "lang (deriv c r) = {w. c # w \<in> lang r}"
proof (induction r)
  case (Seq r1 r2)
  show ?case
  proof (intro set_eqI)
    fix w
    have "w \<in> conc (lang (deriv c r1)) (lang r2) \<longleftrightarrow>
        (\<exists>u v. w = u @ v \<and> c # u \<in> lang r1 \<and> v \<in> lang r2)"
      by (simp add: in_conc_iff Seq)
    then show "w \<in> lang (deriv c (Seq r1 r2)) \<longleftrightarrow> w \<in> {w. c # w \<in> lang (Seq r1 r2)}"
      by (simp add: cons_in_conc nullable_lang Seq) blast
  qed
next
  case (Star r)
  show ?case
  proof (intro set_eqI)
    fix w
    have "w \<in> conc (lang (deriv c r)) (star (lang r)) \<longleftrightarrow>
        (\<exists>u v. w = u @ v \<and> c # u \<in> lang r \<and> v \<in> star (lang r))"
      by (simp add: in_conc_iff Star)
    then show "w \<in> lang (deriv c (Star r)) \<longleftrightarrow> w \<in> {w. c # w \<in> lang (Star r)}"
      by (simp add: cons_in_star)
  qed
qed auto

lemma fullmatch_lang: "fullmatch r s \<longleftrightarrow> s \<in> lang r"
  by (induction s arbitrary: r) (simp_all add: nullable_lang lang_deriv)

subsection \<open>The languages of the size patterns\<close>

lemma star_cls: "star {[c] | c. c \<in> set cs} = {w. set w \<subseteq> set cs}"
proof (intro set_eqI iffI)
  fix w assume "w \<in> star {[c] | c. c \<in> set cs}"
  then show "w \<in> {w. set w \<subseteq> set cs}"
    by (induction rule: star.induct) auto
next
  fix w assume "w \<in> {w. set w \<subseteq> set cs}"
  then have "set w \<subseteq> set cs" by simp
  then show "w \<in> star {[c] | c. c \<in> set cs}"
  proof (induction w)
    case Nil
    show ?case by (rule star.star_nil)
  next
    case (Cons a w)
    then have "[a] @ w \<in> star {[c] | c. c \<in> set cs}"
      by (intro star.star_step) auto
    then show ?case by simp
  qed
qed

lemma lang_digit: "lang digit = {[c] | c. is_digit c}"
  unfolding digit_def is_digit_def by (rule lang.simps)

lemma star_digit: "star {[c] | c. is_digit c} = {w. list_all is_digit w}"
proof -
  have "star {[c] | c. is_digit c} = star {[c] | c. c \<in> set ''0123456789''}"
    by (simp only: is_digit_def)
  also have "\<dots> = {w. set w \<subseteq> set ''0123456789''}" by (rule star_cls)
  also have "\<dots> = {w. list_all is_digit w}"
    by (simp only: is_digit_def list_all_iff subset_iff Ball_def)
  finally show ?thesis .
qed

lemma lang_Plus_digit: "lang (Plus digit) = {w. w \<noteq> [] \<and> list_all is_digit w}"
proof (intro set_eqI iffI)
  fix w assume "w \<in> lang (Plus digit)"
  then have "w \<in> conc {[c] | c. is_digit c} {w. list_all is_digit w}"
    by (simp only: Plus_def lang.simps lang_digit star_digit)
  then show "w \<in> {w. w \<noteq> [] \<and> list_all is_digit w}"
    by (auto simp add: in_conc_iff)
next
  fix w assume "w \<in> {w. w \<noteq> [] \<and> list_all is_digit w}"
  then obtain c w' where "w = [c] @ w'" "is_digit c" "list_all is_digit w'"
    by (cases w) auto
  then have "w \<in> conc {[c] | c. is_digit c} {w. list_all is_digit w}"
    unfolding in_conc_iff by blast
  then show "w \<in> lang (Plus digit)"
    by (simp only: Plus_def lang.simps lang_digit star_digit)
qed

lemma lang_Opt: "lang (Opt r) = insert [] (lang r)"
  by (auto simp add: Opt_def)

lemma lang_fraction: "lang (Opt (Seq (Cls ''.'') (Plus digit))) = {fr. is_fraction fr}"
proof (intro set_eqI iffI)
  fix w assume "w \<in> lang (Opt (Seq (Cls ''.'') (Plus digit)))"
  then show "w \<in> {fr. is_fraction fr}"
    by (auto simp add: lang_Opt lang_Plus_digit in_conc_iff is_fraction_def)
next
  fix w assume "w \<in> {fr. is_fraction fr}"
  then have "w = [] \<or> (\<exists>fs. w = ''.'' @ fs \<and> fs \<noteq> [] \<and> list_all is_digit fs)"
    by (cases w) (auto simp add: is_fraction_def)
  then show "w \<in> lang (Opt (Seq (Cls ''.'') (Plus digit)))"
    by (auto simp add: lang_Opt lang_Plus_digit in_conc_iff)
qed

lemma conc3_iff:
  "t \<in> conc A (conc B (conc C D)) \<longleftrightarrow>
     (\<exists>a b c d. t = a @ b @ c @ d \<and> a \<in> A \<and> b \<in> B \<and> c \<in> C \<and> d \<in> D)"
  unfolding in_conc_iff by blast

lemma conc4_iff:
  "t \<in> conc A (conc B (conc C (conc D E))) \<longleftrightarrow>
     (\<exists>a b c d e. t = a @ b @ c @ d @ e \<and> a \<in> A \<and> b \<in> B \<and> c \<in> C \<and> d \<in> D \<and> e \<in> E)"
  unfolding in_conc_iff by blast

lemma in_opt_cls: "u \<in> insert [] {[c] | c. c \<in> set cs} \<longleftrightarrow> u = [] \<or> (\<exists>c \<in> set cs. u = [c])"
  by auto

lemma in_cls_B: "d \<in> {[c] | c. c \<in> set ''B''} \<longleftrightarrow> d = ''B''"
  by auto

lemma in_opt_newline: "e \<in> insert [] {[c] | c. c \<in> set [CHR 0x0A]} \<longleftrightarrow> e = [] \<or> e = [CHR 0x0A]"
  by auto

lemma lang_file_size_pattern:
  "lang file_size_pattern =
     conc {w. is_digits w} (conc {fr. is_fraction fr}
       (conc (insert [] {[c] | c. c \<in> set ''KMGT''})
          (conc {[c] | c. c \<in> set ''B''} (insert [] {[c] | c. c \<in> set [CHR 0x0A]}))))"
proof -
  have "lang file_size_pattern =
      conc (lang (Plus digit)) (conc (lang (Opt (Seq (Cls ''.'') (Plus digit))))
        (conc (lang (Opt (Cls ''KMGT''))) (conc (lang (Cls ''B'')) (lang dollar))))"
    by (simp only: file_size_pattern_def lang.simps(5))
  also have "\<dots> = conc {w. is_digits w} (conc {fr. is_fraction fr}
          (conc (insert [] {[c] | c. c \<in> set ''KMGT''})
             (conc {[c] | c. c \<in> set ''B''} (insert [] {[c] | c. c \<in> set [CHR 0x0A]}))))"
    by (simp only: lang_fraction lang_Plus_digit is_digits_def)
       (simp only: dollar_def lang_Opt lang.simps(3))
  finally show ?thesis .
qed

lemma file_size_pattern_iff:
  "fullmatch file_size_pattern t \<longleftrightarrow>
     (\<exists>ds fr u nl. t = ds @ fr @ u @ ''B'' @ nl \<and> is_digits ds \<and> is_fraction fr \<and>
        (u = [] \<or> (\<exists>c \<in> set ''KMGT''. u = [c])) \<and> (nl = [] \<or> nl = [CHR 0x0A]))"
  unfolding fullmatch_lang lang_file_size_pattern conc4_iff in_opt_cls in_cls_B in_opt_newline
    mem_Collect_eq
  by simp

lemma lang_size_format:
  "lang size_format =
     conc {w. is_digits w} (conc {fr. is_fraction fr}
       (conc (insert [] {[c] | c. c \<in> set ''KMGTkmgt''}) {[c] | c. c \<in> set ''Bb''}))"
proof -
  have "lang size_format =
      conc (lang (Plus digit)) (conc (lang (Opt (Seq (Cls ''.'') (Plus digit))))
        (conc (lang (Opt (Cls ''KMGTkmgt''))) (lang (Cls ''Bb''))))"
    by (simp only: size_format_def lang.simps(5))
  also have "\<dots> = conc {w. is_digits w} (conc {fr. is_fraction fr}
          (conc (insert [] {[c] | c. c \<in> set ''KMGTkmgt''}) {[c] | c. c \<in> set ''Bb''}))"
    by (simp only: lang_fraction lang_Plus_digit is_digits_def)
       (simp only: lang_Opt lang.simps(3))
  finally show ?thesis .
qed

lemma size_format_iff:
  "matches_size_format s \<longleftrightarrow>
     (\<exists>ds fr u b. s = ds @ fr @ u @ [b] \<and> is_digits ds \<and> is_fraction fr \<and>
        (u = [] \<or> (\<exists>c \<in> set ''KMGTkmgt''. u = [c])) \<and> b \<in> set ''Bb'')"
  unfolding matches_size_format_def fullmatch_lang lang_size_format conc3_iff in_opt_cls
    mem_Collect_eq
  by blast
subsection \<open>Upper case and the characters of the size pattern\<close>

lemma upper_append: "upper (xs @ ys) = upper xs @ upper ys"
  by (simp add: upper_def)

lemma upper_Cons: "upper (c # s) = upper_char c @ upper s"
  by (simp add: upper_def)

lemma upper_Nil: "upper [] = []"
  by (simp add: upper_def)

lemma upper_char_shape: "upper_char c = ''SS'' \<or> (\<exists>d. upper_char c = [d])"
  by (simp add: upper_char_def Let_def)

lemma upper_char_code:
  assumes "upper_char c = [d]"
  shows "(of_char d :: nat) =
     (if (97 \<le> (of_char c :: nat) \<and> (of_char c :: nat) \<le> 122) \<or>
         (224 \<le> (of_char c :: nat) \<and> (of_char c :: nat) \<le> 254 \<and> (of_char c :: nat) \<noteq> 247)
      then of_char c - 32 else of_char c)"
proof -
  have lt: "(of_char c :: nat) < 256" by simp
  then have "(of_char c :: nat) - 32 < 256" by arith
  then have m: "((of_char c :: nat) - 32) mod 256 = of_char c - 32" by (rule mod_less)
  show ?thesis
    using assms by (auto simp add: upper_char_def Let_def m split: if_splits)
qed

lemma upper_char_low:
  assumes "upper_char c = [d]" and "(of_char d :: nat) < 65"
  shows "c = d"
proof -
  from upper_char_code[OF assms(1)] assms(2) have "(of_char d :: nat) = of_char c"
    by (auto split: if_splits)
  then show ?thesis by simp
qed

lemma upper_char_capital:
  assumes "upper_char c = [d]" and "65 \<le> (of_char d :: nat)" and "(of_char d :: nat) \<le> 90"
  shows "(of_char c :: nat) = of_char d \<or> (of_char c :: nat) = of_char d + 32"
  using upper_char_code[OF assms(1)] assms(2,3) by (auto split: if_splits)

lemma of_char_eq_literal: "(of_char c :: nat) = of_char d \<Longrightarrow> c = d"
  by simp

lemma upper_char_unit:
  assumes "upper_char c = [d]" and "d \<in> set ''KMGT''"
  shows "c \<in> set ''KMGTkmgt''"
proof -
  from assms(2) have "d = CHR ''K'' \<or> d = CHR ''M'' \<or> d = CHR ''G'' \<or> d = CHR ''T''" by simp
  then show ?thesis
  proof (elim disjE)
    assume d: "d = CHR ''K''"
    from upper_char_capital[OF assms(1)] have "(of_char c :: nat) = 75 \<or> (of_char c :: nat) = 107"
      by (simp add: d)
    then have "c = CHR ''K'' \<or> c = CHR ''k''"
      by (auto intro: of_char_eq_literal)
    then show ?thesis by auto
  next
    assume d: "d = CHR ''M''"
    from upper_char_capital[OF assms(1)] have "(of_char c :: nat) = 77 \<or> (of_char c :: nat) = 109"
      by (simp add: d)
    then have "c = CHR ''M'' \<or> c = CHR ''m''"
      by (auto intro: of_char_eq_literal)
    then show ?thesis by auto
  next
    assume d: "d = CHR ''G''"
    from upper_char_capital[OF assms(1)] have "(of_char c :: nat) = 71 \<or> (of_char c :: nat) = 103"
      by (simp add: d)
    then have "c = CHR ''G'' \<or> c = CHR ''g''"
      by (auto intro: of_char_eq_literal)
    then show ?thesis by auto
  next
    assume d: "d = CHR ''T''"
    from upper_char_capital[OF assms(1)] have "(of_char c :: nat) = 84 \<or> (of_char c :: nat) = 116"
      by (simp add: d)
    then have "c = CHR ''T'' \<or> c = CHR ''t''"
      by (auto intro: of_char_eq_literal)
    then show ?thesis by auto
  qed
qed

lemma upper_char_B:
  assumes "upper_char c = ''B''"
  shows "c \<in> set ''Bb''"
proof -
  from upper_char_capital[OF assms] have "(of_char c :: nat) = 66 \<or> (of_char c :: nat) = 98"
    by simp
  then have "c = CHR ''B'' \<or> c = CHR ''b''"
    by (auto intro: of_char_eq_literal)
  then show ?thesis by auto
qed

lemma is_digit_code: "is_digit d \<Longrightarrow> (of_char d :: nat) < 65"
  by (auto simp add: is_digit_def)

lemma upper_char_digit: "is_digit c \<Longrightarrow> upper_char c = [c]"
  by (auto simp add: is_digit_def upper_char_def)

lemma upper_char_literals:
  "upper_char (CHR ''.'') = ''.''" "upper_char (CHR 0x0A) = [CHR 0x0A]"
  "upper_char (CHR ''K'') = ''K''" "upper_char (CHR ''M'') = ''M''"
  "upper_char (CHR ''G'') = ''G''" "upper_char (CHR ''T'') = ''T''"
  "upper_char (CHR ''B'') = ''B''"
  "upper_char (CHR ''k'') = ''K''" "upper_char (CHR ''m'') = ''M''"
  "upper_char (CHR ''g'') = ''G''" "upper_char (CHR ''t'') = ''T''"
  "upper_char (CHR ''b'') = ''B''"
  by code_simp+
subsection \<open>Scanning a size string\<close>

lemma is_digits_D: "is_digits ds \<Longrightarrow> ds \<noteq> [] \<and> list_all is_digit ds"
  by (simp add: is_digits_def)

lemma is_fraction_cases:
  "is_fraction fr \<Longrightarrow> fr = [] \<or> (\<exists>fs. fr = CHR ''.'' # fs \<and> fs \<noteq> [] \<and> list_all is_digit fs)"
  by (cases fr) (simp_all add: is_fraction_def)

lemma dot_not_digit: "\<not> is_digit (CHR ''.'')"
  by (simp add: is_digit_def)

lemma scan_number_parts:
  assumes "is_digits ds" and "is_fraction fr"
    and "r = [] \<or> (\<not> is_digit (hd r) \<and> hd r \<noteq> CHR ''.'')"
  shows "scan_number (ds @ fr @ r) = Some (ds @ fr, r)"
proof -
  from is_fraction_cases[OF assms(2)] show ?thesis
  proof
    assume fr: "fr = []"
    have nd: "r = [] \<or> \<not> is_digit (hd r)" using assms(3) by auto
    have t: "takeWhile is_digit (ds @ r) = ds" "dropWhile is_digit (ds @ r) = r"
      using takeWhile_run[of is_digit ds r] nd is_digits_D[OF assms(1)] by simp_all
    show ?thesis
      using assms(3) is_digits_D[OF assms(1)]
      by (auto simp add: scan_number_def fr t split: list.split)
  next
    assume "\<exists>fs. fr = CHR ''.'' # fs \<and> fs \<noteq> [] \<and> list_all is_digit fs"
    then obtain fs where fr: "fr = CHR ''.'' # fs" and fs: "fs \<noteq> []" "list_all is_digit fs"
      by blast
    have nd: "r = [] \<or> \<not> is_digit (hd r)" using assms(3) by auto
    have t: "takeWhile is_digit (ds @ CHR ''.'' # fs @ r) = ds"
      "dropWhile is_digit (ds @ CHR ''.'' # fs @ r) = CHR ''.'' # fs @ r"
      using takeWhile_run[of is_digit ds "CHR ''.'' # fs @ r"] is_digits_D[OF assms(1)]
      by (simp_all add: dot_not_digit)
    have t2: "takeWhile is_digit (fs @ r) = fs" "dropWhile is_digit (fs @ r) = r"
      using takeWhile_run[of is_digit fs r] fs(2) nd by simp_all
    show ?thesis
      using fs(1) is_digits_D[OF assms(1)] by (simp add: scan_number_def fr t t2)
  qed
qed

lemma scan_unit_parts:
  assumes "u = [] \<or> (\<exists>c \<in> set ''KMGT''. u = [c])" and "nl = [] \<or> nl = [CHR 0x0A]"
  shows "scan_unit (u @ ''B'' @ nl) = Some (u @ ''B'')"
  using assms by auto

lemma float_of_literal_parts:
  assumes "is_digits ds" and "is_fraction fr"
  shows "float_of_literal (ds @ fr) = Inr (round_to_double (decimal_value ds (tl fr)))"
proof -
  from is_fraction_cases[OF assms(2)] show ?thesis
  proof
    assume fr: "fr = []"
    have t: "takeWhile is_digit ds = ds" "dropWhile is_digit ds = []"
      using takeWhile_run[of is_digit ds "[]"] is_digits_D[OF assms(1)] by simp_all
    show ?thesis using is_digits_D[OF assms(1)] by (simp add: float_of_literal_def fr t)
  next
    assume "\<exists>fs. fr = CHR ''.'' # fs \<and> fs \<noteq> [] \<and> list_all is_digit fs"
    then obtain fs where fr: "fr = CHR ''.'' # fs" and fs: "fs \<noteq> []" "list_all is_digit fs"
      by blast
    have t: "takeWhile is_digit (ds @ CHR ''.'' # fs) = ds"
      "dropWhile is_digit (ds @ CHR ''.'' # fs) = CHR ''.'' # fs"
      using takeWhile_run[of is_digit ds "CHR ''.'' # fs"] is_digits_D[OF assms(1)]
      by (simp_all add: dot_not_digit)
    show ?thesis
      using fs is_digits_D[OF assms(1)] by (simp add: float_of_literal_def fr t)
  qed
qed

lemma literal_value_parts:
  assumes "is_digits ds" and "is_fraction fr"
    and "r = [] \<or> (\<not> is_digit (hd r) \<and> hd r \<noteq> CHR ''.'')"
  shows "literal_value (ds @ fr @ r) = decimal_value ds (tl fr)"
proof -
  have nd: "r = [] \<or> \<not> is_digit (hd r)" using assms(3) by auto
  from is_fraction_cases[OF assms(2)] show ?thesis
  proof
    assume fr: "fr = []"
    have t: "takeWhile is_digit (ds @ r) = ds" "dropWhile is_digit (ds @ r) = r"
      using takeWhile_run[of is_digit ds r] nd is_digits_D[OF assms(1)] by simp_all
    show ?thesis using assms(3) by (auto simp add: literal_value_def fr t split: list.split)
  next
    assume "\<exists>fs. fr = CHR ''.'' # fs \<and> fs \<noteq> [] \<and> list_all is_digit fs"
    then obtain fs where fr: "fr = CHR ''.'' # fs" and fs: "fs \<noteq> []" "list_all is_digit fs"
      by blast
    have t: "takeWhile is_digit (ds @ CHR ''.'' # fs @ r) = ds"
      "dropWhile is_digit (ds @ CHR ''.'' # fs @ r) = CHR ''.'' # fs @ r"
      using takeWhile_run[of is_digit ds "CHR ''.'' # fs @ r"] is_digits_D[OF assms(1)]
      by (simp_all add: dot_not_digit)
    have t2: "takeWhile is_digit (fs @ r) = fs"
      using takeWhile_run[of is_digit fs r] fs(2) nd by simp
    show ?thesis by (simp add: literal_value_def fr t t2)
  qed
qed

lemma drop_literal:
  assumes "is_digits ds" and "is_fraction fr"
    and "\<not> is_digit c" and "c \<noteq> CHR ''.''"
  shows "dropWhile (\<lambda>c. is_digit c \<or> c = CHR ''.'') (ds @ fr @ c # r) = c # r"
proof -
  have "list_all (\<lambda>c. is_digit c \<or> c = CHR ''.'') (ds @ fr)"
    using is_digits_D[OF assms(1)] is_fraction_cases[OF assms(2)]
    by (auto simp add: list_all_iff)
  from takeWhile_run(2)[OF this, of "c # r"] assms(3,4) show ?thesis by simp
qed

subsection \<open>A size string and its upper case\<close>

lemma upper_digits_id: "list_all is_digit ds \<Longrightarrow> upper ds = ds"
  by (induction ds) (simp_all add: upper_Nil upper_Cons upper_char_digit)

lemma upper_fraction_id: "is_fraction fr \<Longrightarrow> upper fr = fr"
  using is_fraction_cases[of fr]
  by (auto simp add: upper_Nil upper_Cons upper_char_literals upper_digits_id)

lemma upper_eq_Nil: "upper s = [] \<Longrightarrow> s = []"
proof (cases s)
  case (Cons c s')
  assume "upper s = []"
  with Cons upper_char_shape[of c] show ?thesis by (auto simp add: upper_Cons)
qed simp

lemma upper_split:
  assumes "upper s = xs @ ys" and "CHR ''S'' \<notin> set xs"
  shows "\<exists>s1 s2. s = s1 @ s2 \<and> upper s1 = xs \<and> upper s2 = ys"
  using assms
proof (induction xs arbitrary: s)
  case Nil
  then have "s = [] @ s \<and> upper [] = [] \<and> upper s = ys" by (simp add: upper_Nil)
  then show ?case by blast
next
  case (Cons x xs)
  then obtain c s' where s: "s = c # s'"
    by (cases s) (auto simp add: upper_Nil)
  from upper_char_shape[of c] show ?case
  proof
    assume "upper_char c = ''SS''"
    with Cons.prems s have "x = CHR ''S''" by (simp add: upper_Cons)
    with Cons.prems(2) show ?thesis by simp
  next
    assume "\<exists>d. upper_char c = [d]"
    then obtain d where d: "upper_char c = [d]" by blast
    with Cons.prems s have x: "x = d" and rest: "upper s' = xs @ ys"
      by (simp_all add: upper_Cons)
    from Cons.prems(2) have "CHR ''S'' \<notin> set xs" by simp
    from Cons.IH[OF rest this] obtain s1 s2
      where "s' = s1 @ s2" "upper s1 = xs" "upper s2 = ys" by blast
    then have "s = (c # s1) @ s2 \<and> upper (c # s1) = x # xs \<and> upper s2 = ys"
      by (simp add: s upper_Cons d x)
    then show ?thesis by blast
  qed
qed

lemma upper_single:
  assumes "upper s = [d]"
  shows "\<exists>c. s = [c] \<and> upper_char c = [d]"
proof -
  from assms obtain c s' where s: "s = c # s'"
    by (cases s) (auto simp add: upper_Nil)
  from upper_char_shape[of c] show ?thesis
  proof
    assume "upper_char c = ''SS''"
    with assms s show ?thesis by (simp add: upper_Cons)
  next
    assume "\<exists>e. upper_char c = [e]"
    then obtain e where e: "upper_char c = [e]" by blast
    with assms s have "e = d" "upper s' = []" by (simp_all add: upper_Cons)
    then show ?thesis using e s upper_eq_Nil by auto
  qed
qed

lemma upper_low_id:
  assumes "upper s = t" and "\<forall>d \<in> set t. (of_char d :: nat) < 65"
  shows "s = t"
  using assms
proof (induction s arbitrary: t)
  case Nil
  then show ?case by (simp add: upper_Nil)
next
  case (Cons c s)
  from upper_char_shape[of c] show ?case
  proof
    assume "upper_char c = ''SS''"
    with Cons.prems show ?thesis by (auto simp add: upper_Cons)
  next
    assume "\<exists>d. upper_char c = [d]"
    then obtain d where d: "upper_char c = [d]" by blast
    with Cons.prems(1) have t: "t = d # upper s" by (simp add: upper_Cons)
    with Cons.prems(2) have "(of_char d :: nat) < 65" and r: "\<forall>e \<in> set (upper s). (of_char e :: nat) < 65"
      by simp_all
    from upper_char_low[OF d this(1)] have "c = d" .
    moreover from Cons.IH[OF refl r] have "s = upper s" .
    ultimately show ?thesis using t by simp
  qed
qed

lemma digits_low: "list_all is_digit ds \<Longrightarrow> \<forall>d \<in> set ds. (of_char d :: nat) < 65"
  by (simp add: list_all_iff is_digit_code)

lemma fraction_low: "is_fraction fr \<Longrightarrow> \<forall>d \<in> set fr. (of_char d :: nat) < 65"
  using is_fraction_cases[of fr] by (auto simp add: list_all_iff is_digit_code)

lemma S_notin_low: "\<forall>d \<in> set t. (of_char d :: nat) < 65 \<Longrightarrow> CHR ''S'' \<notin> set t"
  by auto

text \<open>The parts of a string that \<open>_is_valid_file_size\<close> accepts.\<close>

lemma is_valid_parts:
  assumes "is_valid_file_size s"
  shows "\<exists>ds fr u b nl. s = ds @ fr @ u @ [b] @ nl \<and> is_digits ds \<and> is_fraction fr \<and>
           (u = [] \<or> (\<exists>c \<in> set ''KMGTkmgt''. u = [c])) \<and> b \<in> set ''Bb'' \<and>
           (nl = [] \<or> nl = [CHR 0x0A])"
proof -
  from assms obtain ds fr u nl where
    t: "upper s = ds @ fr @ u @ ''B'' @ nl" and ds: "is_digits ds" and fr: "is_fraction fr"
    and u: "u = [] \<or> (\<exists>c \<in> set ''KMGT''. u = [c])" and nl: "nl = [] \<or> nl = [CHR 0x0A]"
    unfolding is_valid_file_size_def file_size_pattern_iff by blast
  have ds_low: "\<forall>d \<in> set ds. (of_char d :: nat) < 65"
    using ds digits_low[of ds] by (simp add: is_digits_def)
  from upper_split[OF t S_notin_low[OF ds_low]] obtain s1 r1 where
    s1: "s = s1 @ r1" "upper s1 = ds" "upper r1 = fr @ u @ ''B'' @ nl" by blast
  from upper_split[OF s1(3) S_notin_low[OF fraction_low[OF fr]]] obtain s2 r2 where
    s2: "r1 = s2 @ r2" "upper s2 = fr" "upper r2 = u @ ''B'' @ nl" by blast
  have uS: "CHR ''S'' \<notin> set u" using u by auto
  from upper_split[OF s2(3) uS] obtain s3 r3 where
    s3: "r2 = s3 @ r3" "upper s3 = u" "upper r3 = ''B'' @ nl" by blast
  have "CHR ''S'' \<notin> set ''B''" by simp
  from upper_split[OF s3(3) this] obtain s4 s5 where
    s4: "r3 = s4 @ s5" "upper s4 = ''B''" "upper s5 = nl" by blast
  have e1: "s1 = ds" using upper_low_id[OF s1(2) ds_low] .
  have e2: "s2 = fr" using upper_low_id[OF s2(2) fraction_low[OF fr]] .
  have e5: "s5 = nl"
    using nl by (intro upper_low_id[OF s4(3)]) auto
  from upper_single[OF s4(2)] obtain b where b: "s4 = [b]" "upper_char b = ''B''" by blast
  have bB: "b \<in> set ''Bb''" using upper_char_B[OF b(2)] .
  have e3: "s3 = [] \<or> (\<exists>c \<in> set ''KMGTkmgt''. s3 = [c])"
  proof (cases "u = []")
    case True
    with s3(2) show ?thesis by (simp add: upper_eq_Nil)
  next
    case False
    with u obtain k where k: "k \<in> set ''KMGT''" "u = [k]" by blast
    with s3(2) upper_single obtain c where c: "s3 = [c]" "upper_char c = [k]" by blast
    from upper_char_unit[OF c(2) k(1)] c(1) show ?thesis by blast
  qed
  have "s = ds @ fr @ s3 @ [b] @ nl"
    by (simp add: s1(1) s2(1) s3(1) s4(1) e1 e2 e5 b(1))
  with ds fr e3 bB nl show ?thesis by blast
qed

lemma upper_unit_letter:
  assumes "u = [] \<or> (\<exists>c \<in> set ''KMGTkmgt''. u = [c])"
  shows "upper u = [] \<or> (\<exists>c \<in> set ''KMGT''. upper u = [c])"
  using assms by (auto simp add: upper_Nil upper_Cons upper_char_literals)

lemma upper_B: "b \<in> set ''Bb'' \<Longrightarrow> upper [b] = ''B''"
  by (auto simp add: upper_Nil upper_Cons upper_char_literals)

lemma upper_newline: "nl = [] \<or> nl = [CHR 0x0A] \<Longrightarrow> upper nl = nl"
  by (auto simp add: upper_Nil upper_Cons upper_char_literals)

lemma upper_parts:
  assumes "is_digits ds" and "is_fraction fr" and "b \<in> set ''Bb''"
    and "nl = [] \<or> nl = [CHR 0x0A]"
  shows "upper (ds @ fr @ u @ [b] @ nl) = ds @ fr @ upper u @ ''B'' @ nl"
proof -
  have "upper ds = ds" using assms(1) by (simp add: is_digits_def upper_digits_id)
  moreover have "upper fr = fr" using assms(2) by (rule upper_fraction_id)
  moreover have "upper [b] = ''B''" using assms(3) by (rule upper_B)
  moreover have "upper nl = nl" using assms(4) by (rule upper_newline)
  ultimately show ?thesis by (simp only: upper_append)
qed

lemma parts_valid:
  assumes "is_digits ds" and "is_fraction fr"
    and "u = [] \<or> (\<exists>c \<in> set ''KMGTkmgt''. u = [c])" and "b \<in> set ''Bb''"
    and "nl = [] \<or> nl = [CHR 0x0A]"
  shows "is_valid_file_size (ds @ fr @ u @ [b] @ nl)"
  unfolding is_valid_file_size_def file_size_pattern_iff upper_parts[OF assms(1,2,4,5)]
  using assms(1,2,5) upper_unit_letter[OF assms(3)] by blast

subsection \<open>What the parser returns for a valid size string\<close>

lemma unit_letter_not_literal:
  assumes "c \<in> set ''KMGTkmgtBb''"
  shows "\<not> is_digit c" and "c \<noteq> CHR ''.''"
  using assms by (auto simp add: is_digit_def)

lemma unit_parts:
  assumes "is_digits ds" and "is_fraction fr"
    and "u = [] \<or> (\<exists>c \<in> set ''KMGTkmgt''. u = [c])" and "b \<in> set ''Bb''"
  shows "map_of FILE_SIZE_UNITS (upper u @ ''B'') =
           Some (unit_multiplier (ds @ fr @ u @ [b] @ nl))"
proof (cases "u = []")
  case True
  have b: "b \<in> set ''KMGTkmgtBb''" using assms(4) by auto
  have "dropWhile (\<lambda>c. is_digit c \<or> c = CHR ''.'') (ds @ fr @ b # nl) = b # nl"
    using drop_literal[OF assms(1,2) unit_letter_not_literal[OF b]] .
  then have "unit_multiplier (ds @ fr @ u @ [b] @ nl) = 1"
    using assms(4) True by (auto simp add: unit_multiplier_def)
  then show ?thesis using True by (simp add: FILE_SIZE_UNITS_def upper_Nil)
next
  case False
  with assms(3) obtain c where c: "c \<in> set ''KMGTkmgt''" "u = [c]" by blast
  then have c': "c \<in> set ''KMGTkmgtBb''" by auto
  have d: "dropWhile (\<lambda>c. is_digit c \<or> c = CHR ''.'') (ds @ fr @ c # b # nl) = c # b # nl"
    using drop_literal[OF assms(1,2) unit_letter_not_literal[OF c']] .
  have s: "ds @ fr @ [c] @ [b] @ nl = ds @ fr @ c # b # nl" by simp
  have m: "unit_multiplier (ds @ fr @ c # b # nl) =
      (if c \<in> set ''Kk'' then 1024 else if c \<in> set ''Mm'' then 1024 ^ 2
       else if c \<in> set ''Gg'' then 1024 ^ 3 else if c \<in> set ''Tt'' then 1024 ^ 4 else 1)"
    by (simp only: unit_multiplier_def d list.case)
  have "map_of FILE_SIZE_UNITS (upper [c] @ ''B'') =
      Some (if c \<in> set ''Kk'' then 1024 else if c \<in> set ''Mm'' then 1024 ^ 2
       else if c \<in> set ''Gg'' then 1024 ^ 3 else if c \<in> set ''Tt'' then 1024 ^ 4 else 1)"
    using c(1)
    by (auto simp add: FILE_SIZE_UNITS_def upper_Nil upper_Cons upper_char_literals)
  then show ?thesis unfolding c(2) by (simp only: s m)
qed

lemma unit_multiplier_cases:
  "unit_multiplier s \<in> {1, 1024, 1024 ^ 2, 1024 ^ 3, 1024 ^ 4}"
  by (simp add: unit_multiplier_def split: list.split)

lemma float_of_unit:
  assumes "k \<in> {1, 1024, 1024 ^ 2, 1024 ^ 3, 1024 ^ 4}"
  shows "float_of_int k = Inr (Finite (of_int k))"
  using assms round_to_double_exact_pos[of 1 0 1]
  by (auto simp add: float_of_int_def round_to_double_numeral)

lemma round_to_double_nonneg:
  assumes "0 \<le> q"
  shows "round_to_double q = PosInf \<or> (\<exists>v. 0 \<le> v \<and> round_to_double q = Finite v)"
proof (cases "q = 0")
  case True
  then show ?thesis by (simp add: round_to_double_def)
next
  case False
  with assms have pos: "0 < q" by simp
  define p where "p = max (ilog2 \<bar>q\<bar>) (- 1022) - 52"
  define m where "m = round_half_even (\<bar>q\<bar> / 2 powi p)"
  have "0 \<le> \<bar>q\<bar> / 2 powi p" by simp
  then have "0 \<le> \<lfloor>\<bar>q\<bar> / 2 powi p\<rfloor>" by simp
  then have m: "0 \<le> m" unfolding m_def round_half_even_def Let_def by auto
  have v: "(0::rat) \<le> of_int m * 2 powi p" using m by simp
  show ?thesis
    using pos v unfolding round_to_double_def Let_def p_def[symmetric] m_def[symmetric]
    by auto
qed

lemma int_of_digits_nonneg: "list_all is_digit ds \<Longrightarrow> 0 \<le> int_of_digits ds"
proof (induction ds rule: rev_induct)
  case Nil
  then show ?case by (simp add: int_of_digits_def)
next
  case (snoc c ds)
  then have "0 \<le> int_of_digits ds" and "is_digit c" by simp_all
  moreover from \<open>is_digit c\<close> have "0 \<le> digit_value c"
    by (auto simp add: is_digit_def digit_value_def)
  ultimately show ?case by (simp add: int_of_digits_snoc)
qed

lemma decimal_value_nonneg:
  assumes "is_digits ds" and "is_fraction fr"
  shows "0 \<le> decimal_value ds (tl fr)"
proof -
  have "list_all is_digit (tl fr)" using is_fraction_cases[OF assms(2)] by auto
  then have "0 \<le> int_of_digits (tl fr)" by (rule int_of_digits_nonneg)
  moreover have "0 \<le> int_of_digits ds"
    using is_digits_D[OF assms(1)] by (simp add: int_of_digits_nonneg)
  ultimately show ?thesis by (simp add: decimal_value_def)
qed

lemma int_of_product:
  assumes "0 \<le> q" and "0 < k"
  shows "(case int_of_float (fmul (round_to_double q) (Finite k)) of
            Inl ValueError \<Rightarrow> Inl (ConfigError m) | Inl e \<Rightarrow> Inl e | Inr n \<Rightarrow> Inr n) =
         (case fmul (round_to_double q) (Finite k) of
            Finite v \<Rightarrow> Inr \<lfloor>v\<rfloor> | _ \<Rightarrow> Inl OverflowError)"
proof -
  from round_to_double_nonneg[OF assms(1)] show ?thesis
  proof
    assume "round_to_double q = PosInf"
    then show ?thesis using assms(2) by simp
  next
    assume "\<exists>v. 0 \<le> v \<and> round_to_double q = Finite v"
    then obtain v where v: "0 \<le> v" "round_to_double q = Finite v" by blast
    have "0 \<le> v * k" using v(1) assms(2) by simp
    from round_to_double_nonneg[OF this] show ?thesis
      by (auto simp add: v(2))
  qed
qed

lemma parse_valid:
  assumes "is_valid_file_size s"
  shows "parse_file_size_to_bytes s =
           (case fmul (round_to_double (literal_value s)) (Finite (of_int (unit_multiplier s))) of
              Finite v \<Rightarrow> Inr \<lfloor>v\<rfloor>
            | _ \<Rightarrow> Inl OverflowError)"
proof -
  from is_valid_parts[OF assms] obtain ds fr u b nl where
    s: "s = ds @ fr @ u @ [b] @ nl" and ds: "is_digits ds" and fr: "is_fraction fr"
    and u: "u = [] \<or> (\<exists>c \<in> set ''KMGTkmgt''. u = [c])" and b: "b \<in> set ''Bb''"
    and nl: "nl = [] \<or> nl = [CHR 0x0A]" by blast
  have up: "upper s = ds @ fr @ upper u @ ''B'' @ nl"
    unfolding s by (rule upper_parts[OF ds fr b nl])
  have uu: "upper u = [] \<or> (\<exists>c \<in> set ''KMGT''. upper u = [c])"
    by (rule upper_unit_letter[OF u])
  have hd_up: "hd (upper u @ ''B'' @ nl) \<in> set ''KMGTkmgtBb''" using uu by auto
  have r_up: "upper u @ ''B'' @ nl = [] \<or>
      (\<not> is_digit (hd (upper u @ ''B'' @ nl)) \<and> hd (upper u @ ''B'' @ nl) \<noteq> CHR ''.'')"
    using unit_letter_not_literal[OF hd_up] by blast
  have hd_s: "hd (u @ [b] @ nl) \<in> set ''KMGTkmgtBb''" using u b by auto
  have r_s: "u @ [b] @ nl = [] \<or>
      (\<not> is_digit (hd (u @ [b] @ nl)) \<and> hd (u @ [b] @ nl) \<noteq> CHR ''.'')"
    using unit_letter_not_literal[OF hd_s] by blast
  have g: "match_groups (upper s) = Some (ds @ fr, upper u @ ''B'')"
    unfolding up match_groups_def
    using scan_number_parts[OF ds fr r_up] scan_unit_parts[OF uu nl] by simp
  have lit: "literal_value s = decimal_value ds (tl fr)"
    unfolding s by (rule literal_value_parts[OF ds fr r_s])
  have f: "float_of_literal (ds @ fr) = Inr (round_to_double (literal_value s))"
    unfolding lit by (rule float_of_literal_parts[OF ds fr])
  have k: "map_of FILE_SIZE_UNITS (upper u @ ''B'') = Some (unit_multiplier s)"
    unfolding s by (rule unit_parts[OF ds fr u b])
  have kpos: "(0::rat) < of_int (unit_multiplier s)"
    using unit_multiplier_cases[of s] by auto
  have t: "float_times_int x (unit_multiplier s) = Inr (fmul x (Finite (of_int (unit_multiplier s))))"
    for x
    by (simp add: float_times_int_def float_of_unit[OF unit_multiplier_cases])
  have nn: "0 \<le> literal_value s" unfolding lit by (rule decimal_value_nonneg[OF ds fr])
  show ?thesis
    unfolding parse_file_size_to_bytes_def size_in_bytes_def
    using assms int_of_product[OF nn kpos]
    by (simp add: g f k t del: map_of.simps)
qed

lemma valid_iff_format:
  "is_valid_file_size s \<longleftrightarrow>
     matches_size_format s \<or> (\<exists>t. s = t @ [CHR 0x0A] \<and> matches_size_format t)"
proof
  assume "is_valid_file_size s"
  from is_valid_parts[OF this] obtain ds fr u b nl where
    s: "s = ds @ fr @ u @ [b] @ nl" and p: "is_digits ds" "is_fraction fr"
      "u = [] \<or> (\<exists>c \<in> set ''KMGTkmgt''. u = [c])" "b \<in> set ''Bb''"
    and nl: "nl = [] \<or> nl = [CHR 0x0A]" by blast
  have m: "matches_size_format (ds @ fr @ u @ [b])"
    unfolding size_format_iff using p by blast
  from nl show "matches_size_format s \<or> (\<exists>t. s = t @ [CHR 0x0A] \<and> matches_size_format t)"
  proof
    assume "nl = []"
    with s m show ?thesis by simp
  next
    assume "nl = [CHR 0x0A]"
    with s have "s = (ds @ fr @ u @ [b]) @ [CHR 0x0A]" by simp
    with m show ?thesis by blast
  qed
next
  assume "matches_size_format s \<or> (\<exists>t. s = t @ [CHR 0x0A] \<and> matches_size_format t)"
  then obtain t nl where s: "s = t @ nl" and nl: "nl = [] \<or> nl = [CHR 0x0A]"
    and t: "matches_size_format t" by auto
  from t obtain ds fr u b where
    t': "t = ds @ fr @ u @ [b]" and p: "is_digits ds" "is_fraction fr"
      "u = [] \<or> (\<exists>c \<in> set ''KMGTkmgt''. u = [c])" "b \<in> set ''Bb''"
    unfolding size_format_iff by blast
  have "s = ds @ fr @ u @ [b] @ nl" using s t' by simp
  then show "is_valid_file_size s" using parts_valid[OF p nl] by simp
qed

lemma unit_multiplier_power:
  "\<exists>j. 0 \<le> j \<and> j \<le> 40 \<and> (of_int (unit_multiplier s) :: rat) = 2 powi j"
proof -
  have e: "(1::rat) = 2 powi 0" "(1024::rat) = 2 powi 10" "(1048576::rat) = 2 powi 20"
    "(1073741824::rat) = 2 powi 30" "(1099511627776::rat) = 2 powi 40"
    by simp_all
  from unit_multiplier_cases[of s]
  consider "unit_multiplier s = 1" | "unit_multiplier s = 1024" | "unit_multiplier s = 1048576"
    | "unit_multiplier s = 1073741824" | "unit_multiplier s = 1099511627776"
    by auto
  then show ?thesis
  proof cases
    case 1
    then have "(0::int) \<le> 0 \<and> (0::int) \<le> 40 \<and> (of_int (unit_multiplier s) :: rat) = 2 powi 0"
      by simp
    then show ?thesis by blast
  next
    case 2
    then have "(0::int) \<le> 10 \<and> (10::int) \<le> 40 \<and> (of_int (unit_multiplier s) :: rat) = 2 powi 10"
      by simp
    then show ?thesis by blast
  next
    case 3
    then have "(0::int) \<le> 20 \<and> (20::int) \<le> 40 \<and> (of_int (unit_multiplier s) :: rat) = 2 powi 20"
      by simp
    then show ?thesis by blast
  next
    case 4
    then have "(0::int) \<le> 30 \<and> (30::int) \<le> 40 \<and> (of_int (unit_multiplier s) :: rat) = 2 powi 30"
      by simp
    then show ?thesis by blast
  next
    case 5
    then have "(0::int) \<le> 40 \<and> (40::int) \<le> 40 \<and> (of_int (unit_multiplier s) :: rat) = 2 powi 40"
      by simp
    then show ?thesis by blast
  qed
qed

lemma round_to_double_exact:
  assumes "0 \<le> m" and "m < 2 ^ 53" and "- 1074 \<le> p" and "p \<le> 971"
  shows "round_to_double (of_int m * 2 powi p) = Finite (of_int m * 2 powi p)"
proof (cases "m = 0")
  case True
  then show ?thesis by (simp add: round_to_double_def)
next
  case False
  with assms(1) have "0 < m" by simp
  from round_to_double_exact_pos[OF this assms(2,3,4) refl] show ?thesis .
qed

lemma parse_exact:
  assumes "is_valid_file_size s" and "literal_value s = of_int m * 2 powi p"
    and "0 \<le> m" and "m < 2 ^ 53" and "- 1074 \<le> p" and "p \<le> 0"
  shows "parse_file_size_to_bytes s = Inr (exact_size_in_bytes s)"
proof -
  from unit_multiplier_power[of s] obtain j where
    j: "0 \<le> j" "j \<le> 40" "(of_int (unit_multiplier s) :: rat) = 2 powi j" by blast
  have r1: "round_to_double (literal_value s) = Finite (of_int m * 2 powi p)"
    unfolding assms(2) using round_to_double_exact[OF assms(3,4,5)] assms(6) by simp
  have pj: "(of_int m :: rat) * 2 powi p * 2 powi j = of_int m * 2 powi (p + j)"
    by (simp add: power_int_add)
  have r3: "round_to_double (of_int m * 2 powi (p + j)) = Finite (of_int m * 2 powi (p + j))"
    using round_to_double_exact[OF assms(3,4), of "p + j"] assms(5,6) j(1,2) by simp
  have "fmul (round_to_double (literal_value s)) (Finite (of_int (unit_multiplier s))) =
      round_to_double (of_int m * 2 powi p * 2 powi j)"
    by (simp only: r1 j(3) fmul.simps)
  also have "\<dots> = Finite (of_int m * 2 powi p * 2 powi j)"
    by (simp only: pj r3)
  finally have r2: "fmul (round_to_double (literal_value s)) (Finite (of_int (unit_multiplier s))) =
      Finite (literal_value s * of_int (unit_multiplier s))"
    by (simp only: assms(2) j(3))
  show ?thesis
    by (simp add: parse_valid[OF assms(1)] r2 exact_size_in_bytes_def)
qed

text \<open>
  Claim C3, as the code has it.  \<open>_is_valid_file_size(s)\<close> is true exactly when \<open>s\<close>, or
  \<open>s\<close> without one final line feed (which \<open>$\<close> of Python's \<open>re\<close> lets through), is digits,
  an optional fraction, an optional unit letter and \<open>B\<close>, letters in either case.  For a
  string that is not valid, \<open>_parse_file_size_to_bytes\<close> raises the \<open>ConfigError\<close>
  \<open>Invalid file size format\<close>.  For a valid one the literal becomes the nearest float, the
  product with the unit multiplier is rounded to a float again, and when this float is
  finite the result is its integer part.  That is the exact product truncated whenever
  the literal is a float itself: \<open>m * 2^p\<close> with \<open>0 \<le> m < 2^53\<close> and \<open>- 1074 \<le> p \<le> 0\<close>, as
  \<open>2.5\<close> in \<open>2.5MB\<close>, which gives 2621440.
\<close>

theorem file_size_parsing:
  "(is_valid_file_size s \<longleftrightarrow>
      matches_size_format s \<or> (\<exists>t. s = t @ [CHR 0x0A] \<and> matches_size_format t)) \<and>
   (\<not> is_valid_file_size s \<longrightarrow>
      parse_file_size_to_bytes s = Inl (ConfigError (InvalidFileSizeFormat s)) \<and>
      spec_kind (ConfigError (InvalidFileSizeFormat s)) = Some InvalidFormat) \<and>
   (is_valid_file_size s \<longrightarrow>
      fmul (round_to_double (literal_value s)) (Finite (of_int (unit_multiplier s))) = Finite v \<longrightarrow>
      parse_file_size_to_bytes s = Inr \<lfloor>v\<rfloor>) \<and>
   (is_valid_file_size s \<longrightarrow> literal_value s = of_int m * 2 powi p \<longrightarrow>
      0 \<le> m \<longrightarrow> m < 2 ^ 53 \<longrightarrow> - 1074 \<le> p \<longrightarrow> p \<le> 0 \<longrightarrow>
      parse_file_size_to_bytes s = Inr (exact_size_in_bytes s))"
proof (intro conjI impI)
  show "is_valid_file_size s \<longleftrightarrow>
      matches_size_format s \<or> (\<exists>t. s = t @ [CHR 0x0A] \<and> matches_size_format t)"
    by (rule valid_iff_format)
next
  assume "\<not> is_valid_file_size s"
  then show "parse_file_size_to_bytes s = Inl (ConfigError (InvalidFileSizeFormat s))"
    by (simp add: parse_file_size_to_bytes_def)
next
  show "spec_kind (ConfigError (InvalidFileSizeFormat s)) = Some InvalidFormat" by simp
next
  assume "is_valid_file_size s"
    and "fmul (round_to_double (literal_value s)) (Finite (of_int (unit_multiplier s))) = Finite v"
  then show "parse_file_size_to_bytes s = Inr \<lfloor>v\<rfloor>"
    by (simp add: parse_valid)
next
  assume "is_valid_file_size s" "literal_value s = of_int m * 2 powi p"
    "0 \<le> m" "m < 2 ^ 53" "- 1074 \<le> p" "p \<le> 0"
  then show "parse_file_size_to_bytes s = Inr (exact_size_in_bytes s)"
    by (rule parse_exact)
qed

lemma is_valid_2_5MB: "is_valid_file_size ''2.5MB''"
  by (simp add: is_valid_file_size_def upper_def upper_char_def file_size_pattern_def
        digit_def Plus_def Opt_def dollar_def)

lemma literal_2_5MB: "literal_value ''2.5MB'' = of_int 5 * 2 powi (- 1)"
  by (simp add: literal_value_def is_digit_def decimal_value_def int_of_digits_def
        digit_value_def)

lemma not_valid_spaced: "\<not> is_valid_file_size ''10 MB''"
  by (simp add: is_valid_file_size_def upper_def upper_char_def file_size_pattern_def
        digit_def Plus_def Opt_def dollar_def)

theorem file_size_parsing_witness:
  "is_valid_file_size ''2.5MB'' \<and> matches_size_format ''2.5MB'' \<and>
   parse_file_size_to_bytes ''2.5MB'' = Inr 2621440 \<and>
   exact_size_in_bytes ''2.5MB'' = 2621440 \<and>
   \<not> is_valid_file_size ''10 MB'' \<and>
   parse_file_size_to_bytes ''10 MB'' = Inl (ConfigError (InvalidFileSizeFormat ''10 MB''))"
proof -
  have m: "matches_size_format ''2.5MB''"
    by (simp add: matches_size_format_def size_format_def digit_def Plus_def Opt_def)
  have f: "fmul (round_to_double (literal_value ''2.5MB''))
             (Finite (of_int (unit_multiplier ''2.5MB''))) = Finite 2621440"
  proof -
    have u: "unit_multiplier ''2.5MB'' = 1048576"
      by (simp add: unit_multiplier_def is_digit_def)
    have l: "literal_value ''2.5MB'' = 5 / 2" using literal_2_5MB by simp
    have a: "round_to_double (5 / 2) = Finite (5 / 2)"
      using round_to_double_exact[of 5 "- 1"] by simp
    show ?thesis
      by (simp add: l u a round_to_double_numeral)
  qed
  note T = file_size_parsing[of "''2.5MB''" 2621440 5 "- 1"]
  from T[THEN conjunct2, THEN conjunct2, THEN conjunct1] is_valid_2_5MB f
  have "parse_file_size_to_bytes ''2.5MB'' = Inr \<lfloor>2621440 :: rat\<rfloor>" by blast
  then have p1: "parse_file_size_to_bytes ''2.5MB'' = Inr 2621440" by simp
  have "(0::int) \<le> 5" "(5::int) < 2 ^ 53" "(- 1074 :: int) \<le> - 1" "(- 1 :: int) \<le> 0"
    by simp_all
  with T[THEN conjunct2, THEN conjunct2, THEN conjunct2] is_valid_2_5MB literal_2_5MB
  have p2: "parse_file_size_to_bytes ''2.5MB'' = Inr (exact_size_in_bytes ''2.5MB'')"
    by blast
  note N = file_size_parsing[of "''10 MB''" 0 0 0]
  from N[THEN conjunct2, THEN conjunct1] not_valid_spaced
  have p3: "parse_file_size_to_bytes ''10 MB'' = Inl (ConfigError (InvalidFileSizeFormat ''10 MB''))"
    by blast
  from p1 p2 have e: "exact_size_in_bytes ''2.5MB'' = 2621440" by simp
  from p1 p3 e show ?thesis
    using is_valid_2_5MB m not_valid_spaced by simp
qed

theorem file_size_parsing_counterexample:
  "matches_size_format ''9007199254740993B'' \<and>
   parse_file_size_to_bytes ''9007199254740993B'' = Inr 9007199254740992 \<and>
   exact_size_in_bytes ''9007199254740993B'' = 9007199254740993"
proof -
  have m: "matches_size_format ''9007199254740993B''"
    by (simp add: matches_size_format_def size_format_def digit_def Plus_def Opt_def)
  have v: "is_valid_file_size ''9007199254740993B''"
    using m by (simp add: valid_iff_format)
  have l: "literal_value ''9007199254740993B'' = 9007199254740993"
    by (simp add: literal_value_def is_digit_def decimal_value_def int_of_digits_def
          digit_value_def)
  have u: "unit_multiplier ''9007199254740993B'' = 1"
    by (simp add: unit_multiplier_def is_digit_def)
  have t: "round_half_even ((9007199254740993::rat) / 2 powi 1) = 4503599627370496"
    using round_half_even_tie[of "9007199254740993 / 2 powi 1" 4503599627370496] by simp
  have a: "round_to_double 9007199254740993 = Finite 9007199254740992"
    using round_to_double_eval[of 9007199254740993 53 1 4503599627370496] t by simp
  have b: "round_to_double 9007199254740992 = Finite 9007199254740992"
    using round_to_double_exact[of 4503599627370496 1] by simp
  have f: "fmul (round_to_double (literal_value ''9007199254740993B''))
             (Finite (of_int (unit_multiplier ''9007199254740993B''))) = Finite 9007199254740992"
    by (simp add: l u a b)
  have p: "parse_file_size_to_bytes ''9007199254740993B'' = Inr 9007199254740992"
    by (simp add: parse_valid[OF v] f)
  have e: "exact_size_in_bytes ''9007199254740993B'' = 9007199254740993"
    by (simp add: exact_size_in_bytes_def l u)
  from m p e show ?thesis by simp
qed

subsection \<open>A size too large for a float\<close>

lemma round_half_even_ge: "\<lfloor>x\<rfloor> \<le> round_half_even x"
  by (simp add: round_half_even_def Let_def)

lemma round_to_double_overflow:
  assumes "2 powi 1024 \<le> q"
  shows "round_to_double q = PosInf"
proof -
  have pos: "0 < q" using assms by (rule less_le_trans[rotated]) simp
  define e where "e = ilog2 \<bar>q\<bar>"
  have aq: "\<bar>q\<bar> = q" using pos by simp
  from ilog2_bounds[OF pos] have lo: "2 powi e \<le> q" and hi: "q < 2 powi (e + 1)"
    by (simp_all add: e_def aq)
  have "(2::rat) powi 1024 < 2 powi (e + 1)" using assms hi by simp
  from pow2_less_imp_less[OF this] have e: "1024 \<le> e" by simp
  define p where "p = max e (- 1022) - 52"
  have p: "p = e - 52" using e by (simp add: p_def)
  define m where "m = round_half_even (\<bar>q\<bar> / 2 powi p)"
  have "(2::rat) powi 52 = 2 powi e / 2 powi p"
    by (simp add: p power_int_diff)
  also have "\<dots> \<le> q / 2 powi p" using lo by (simp add: divide_right_mono)
  finally have "(2::rat) powi 52 \<le> q / 2 powi p" .
  then have fl: "(4503599627370496::int) \<le> \<lfloor>q / 2 powi p\<rfloor>"
    by (simp add: le_floor_iff)
  have m52: "4503599627370496 \<le> m"
    using fl round_half_even_ge[of "q / 2 powi p"] unfolding m_def aq by linarith
  then have "(of_int 4503599627370496 :: rat) \<le> of_int m" by (simp only: of_int_le_iff)
  then have "(2::rat) powi 52 \<le> of_int m" by simp
  then have A: "(2::rat) powi 52 * 2 powi p \<le> of_int m * 2 powi p"
    by (intro mult_right_mono) simp_all
  have B: "(2::rat) powi 52 * 2 powi p = 2 powi e"
    by (simp add: p power_int_diff)
  have "(2::rat) powi 1024 \<le> 2 powi e"
    using e by (intro power_int_increasing) auto
  also have "\<dots> = 2 powi 52 * 2 powi p" by (rule B[symmetric])
  also have "\<dots> \<le> of_int m * 2 powi p" by (rule A)
  finally have v: "(2::rat) powi 1024 \<le> of_int m * 2 powi p" .
  show ?thesis
    using pos v
    unfolding round_to_double_def Let_def e_def[symmetric] p_def[symmetric] m_def[symmetric]
    by simp
qed

lemma int_of_digits_zeros:
  "int_of_digits (c # replicate n (CHR ''0'')) = digit_value c * 10 ^ n"
proof (induction n)
  case 0
  then show ?case using int_of_digits_snoc[of "[]" c] by (simp add: int_of_digits_def)
next
  case (Suc n)
  have "c # replicate (Suc n) (CHR ''0'') = (c # replicate n (CHR ''0'')) @ [CHR ''0'']"
    by (simp add: replicate_append_same)
  then have "int_of_digits (c # replicate (Suc n) (CHR ''0'')) =
      10 * int_of_digits (c # replicate n (CHR ''0'')) + digit_value (CHR ''0'')"
    by (simp only: int_of_digits_snoc)
  then show ?case by (simp add: Suc digit_value_def)
qed

lemma parse_overflow:
  "parse_file_size_to_bytes (CHR ''1'' # replicate 400 (CHR ''0'') @ ''B'') = Inl OverflowError"
proof -
  define ds where "ds = CHR ''1'' # replicate 400 (CHR ''0'')"
  have s: "CHR ''1'' # replicate 400 (CHR ''0'') @ ''B'' = ds @ ''B''"
    by (simp add: ds_def)
  have ds: "is_digits ds"
    by (simp add: is_digits_def ds_def list_all_iff is_digit_def)
  have fr: "is_fraction []" by (simp add: is_fraction_def)
  have "is_valid_file_size (ds @ [] @ [] @ [CHR ''B''] @ [])"
    by (rule parts_valid[OF ds fr]) simp_all
  then have v: "is_valid_file_size (ds @ ''B'')" by simp
  have "literal_value (ds @ [] @ ''B'') = decimal_value ds (tl [])"
    by (rule literal_value_parts[OF ds fr]) (simp add: is_digit_def)
  moreover have "int_of_digits [] = 0" by (simp add: int_of_digits_def)
  moreover have "int_of_digits ds = 10 ^ 400"
    unfolding ds_def int_of_digits_zeros by (simp add: digit_value_def)
  ultimately have l: "literal_value (ds @ ''B'') = 10 ^ 400"
    by (simp add: decimal_value_def)
  have "(2::rat) powi 1024 \<le> 2 powi 1200" by (intro power_int_increasing) auto
  also have "\<dots> = (8::rat) ^ 400" by simp
  also have "\<dots> \<le> 10 ^ 400" by (intro power_mono) auto
  finally have r: "round_to_double (10 ^ 400) = PosInf" by (rule round_to_double_overflow)
  have k: "(0::rat) < of_int (unit_multiplier (ds @ ''B''))"
    using unit_multiplier_cases[of "ds @ ''B''"] by auto
  have "fmul (round_to_double (literal_value (ds @ ''B'')))
      (Finite (of_int (unit_multiplier (ds @ ''B'')))) = PosInf"
    unfolding l r using k by simp
  then show ?thesis
    unfolding s by (simp add: parse_valid[OF v])
qed

lemma strip_overflow:
  "strip (CHR ''1'' # replicate 400 (CHR ''0'') @ ''B'') = CHR ''1'' # replicate 400 (CHR ''0'') @ ''B''"
  by (simp add: strip_def is_space_def)

text \<open>
  Claim C8.  With the API key \<open>bad\<close>, which does not start with \<open>sk-\<close>, and a maximum
  file size of 1 followed by 400 zeros and \<open>B\<close>, \<open>Config()\<close> raises \<open>OverflowError\<close>, not a
  \<open>ConfigError\<close>: the size is parsed before \<open>validate\<close> looks at the key, \<open>float\<close> of the
  number is infinite, \<open>int\<close> of it raises \<open>OverflowError\<close>, and the \<open>except\<close> clause of
  \<open>_parse_file_size_to_bytes\<close> catches \<open>ValueError\<close> and \<open>KeyError\<close> only.
\<close>

theorem config_overflow_escapes:
  "Config False None urandom
     [''ANTHROPIC_API_KEY'' \<mapsto> ''bad'',
      ''MAX_FILE_SIZE'' \<mapsto> CHR ''1'' # replicate 400 (CHR ''0'') @ ''B''] = Inl OverflowError \<and>
   spec_kind OverflowError = None \<and> \<not> startswith ''bad'' ''sk-''"
proof -
  have s1: "strip ''bad'' = ''bad''"
    by (simp add: strip_def is_space_def)
  have g: "get_optional_env
       [''ANTHROPIC_API_KEY'' \<mapsto> ''bad'',
        ''MAX_FILE_SIZE'' \<mapsto> CHR ''1'' # replicate 400 (CHR ''0'') @ ''B'']
       ''MAX_FILE_SIZE'' DEFAULT_MAX_FILE_SIZE = CHR ''1'' # replicate 400 (CHR ''0'') @ ''B''"
    unfolding get_optional_env_def by (simp add: strip_overflow)
  have c: "Config False None urandom
     [''ANTHROPIC_API_KEY'' \<mapsto> ''bad'',
      ''MAX_FILE_SIZE'' \<mapsto> CHR ''1'' # replicate 400 (CHR ''0'') @ ''B''] = Inl OverflowError"
    by (simp only: Config_result Let_def effective_environ_def if_False g parse_overflow)
      (simp add: get_required_env_def s1)
  show ?thesis
    using c by (simp add: startswith_def)
qed

subsection \<open>The computed overall score\<close>

lemma round_to_double_positive:
  assumes "2 powi (- 1074) \<le> q"
  shows "round_to_double q = PosInf \<or> (\<exists>v. 2 powi (- 1074) \<le> v \<and> round_to_double q = Finite v)"
proof -
  have pos: "0 < q" using assms by (rule less_le_trans[rotated]) simp
  have aq: "\<bar>q\<bar> = q" using pos by simp
  define e where "e = ilog2 \<bar>q\<bar>"
  from ilog2_bounds[OF pos] have lo: "2 powi e \<le> q" by (simp add: e_def aq)
  define p where "p = max e (- 1022) - 52"
  define m where "m = round_half_even (\<bar>q\<bar> / 2 powi p)"
  have p_lo: "- 1074 \<le> p" by (simp add: p_def)
  have "(2::rat) powi p \<le> q"
  proof (cases "- 1022 \<le> e")
    case True
    then have "p \<le> e" by (simp add: p_def)
    then have "(2::rat) powi p \<le> 2 powi e" by (intro power_int_increasing) auto
    with lo show ?thesis by simp
  next
    case False
    then have "p = - 1074" by (simp add: p_def)
    with assms show ?thesis by simp
  qed
  then have "1 \<le> q / 2 powi p" by (simp add: le_divide_eq)
  then have "(1::int) \<le> \<lfloor>q / 2 powi p\<rfloor>" by (simp add: le_floor_iff)
  with round_half_even_ge[of "q / 2 powi p"] have m1: "1 \<le> m"
    unfolding m_def aq by linarith
  have "(2::rat) powi (- 1074) \<le> 2 powi p" using p_lo by (intro power_int_increasing) auto
  also have "\<dots> = 1 * 2 powi p" by simp
  also have "\<dots> \<le> of_int m * 2 powi p" using m1 by (intro mult_right_mono) simp_all
  finally have v: "(2::rat) powi (- 1074) \<le> of_int m * 2 powi p" .
  have s: "sgn q = 1" using pos by simp
  show ?thesis
    using pos v
    unfolding round_to_double_def Let_def e_def[symmetric] p_def[symmetric] m_def[symmetric] s
    by auto
qed

lemma round_to_double_finite_less:
  assumes "round_to_double q = Finite v" and "0 < q"
  shows "v < 2 powi 1024"
proof -
  define p where "p = max (ilog2 \<bar>q\<bar>) (- 1022) - 52"
  define m where "m = round_half_even (\<bar>q\<bar> / 2 powi p)"
  have s: "sgn q = 1" using assms(2) by simp
  show ?thesis
    using assms
    unfolding round_to_double_def Let_def p_def[symmetric] m_def[symmetric] s
    by (auto split: if_splits)
qed


lemma positive_float_round:
  "2 powi (- 1074) \<le> q \<Longrightarrow> positive_float (round_to_double q)"
  unfolding positive_float_def by (rule round_to_double_positive)

lemma positive_float_less: "positive_float x \<Longrightarrow> fless (Finite 0) x"
proof -
  assume "positive_float x"
  then consider "x = PosInf" | v where "2 powi (- 1074) \<le> v" "x = Finite v"
    unfolding positive_float_def by blast
  then show ?thesis
  proof cases
    case 1
    then show ?thesis by simp
  next
    case 2
    have "(0::rat) < 2 powi (- 1074)" by simp
    with 2(1) have "0 < v" by linarith
    with 2(2) show ?thesis by simp
  qed
qed

lemma positive_float_fadd:
  assumes "x = PosInf \<or> (\<exists>t. 0 \<le> t \<and> x = Finite t)" and "positive_float w"
  shows "positive_float (fadd x w)"
proof -
  from assms(2) consider "w = PosInf" | v where "2 powi (- 1074) \<le> v" "w = Finite v"
    unfolding positive_float_def by blast
  then show ?thesis
  proof cases
    case 1
    with assms(1) show ?thesis by (auto simp add: positive_float_def)
  next
    case 2
    from assms(1) show ?thesis
    proof
      assume "x = PosInf"
      with 2(2) show ?thesis by (simp add: positive_float_def)
    next
      assume "\<exists>t. 0 \<le> t \<and> x = Finite t"
      then obtain t where t: "0 \<le> t" "x = Finite t" by blast
      have "2 powi (- 1074) \<le> t + v" using t(1) 2(1) by linarith
      from positive_float_round[OF this] show ?thesis by (simp add: t(2) 2(2))
    qed
  qed
qed

lemma positive_float_nonneg:
  "positive_float x \<Longrightarrow> x = PosInf \<or> (\<exists>t. 0 \<le> t \<and> x = Finite t)"
proof -
  assume "positive_float x"
  then consider "x = PosInf" | v where "2 powi (- 1074) \<le> v" "x = Finite v"
    unfolding positive_float_def by blast
  then show ?thesis
  proof cases
    case 1
    then show ?thesis by simp
  next
    case 2
    have "(0::rat) \<le> 2 powi (- 1074)" by simp
    with 2(1) have "0 \<le> v" by linarith
    with 2(2) show ?thesis by blast
  qed
qed

lemma positive_float_foldl:
  assumes "x = PosInf \<or> (\<exists>t. 0 \<le> t \<and> x = Finite t)"
    and "\<forall>w \<in> set ws. positive_float w" and "ws \<noteq> []"
  shows "positive_float (foldl fadd x ws)"
  using assms
proof (induction ws arbitrary: x)
  case Nil
  then show ?case by simp
next
  case (Cons w ws)
  have p: "positive_float (fadd x w)"
    using positive_float_fadd[OF Cons.prems(1)] Cons.prems(2) by simp
  show ?case
  proof (cases "ws = []")
    case True
    with p show ?thesis by simp
  next
    case False
    from Cons.IH[OF positive_float_nonneg[OF p] _ False] Cons.prems(2)
    show ?thesis by simp
  qed
qed

text \<open>The weights.\<close>

lemma named_weight_positive:
  assumes "named_weight c = Some w"
  shows "2 powi (- 1074) \<le> w"
proof -
  have "(2::rat) powi (- 1074) \<le> 2 powi (- 4)" by (intro power_int_increasing) auto
  also have "\<dots> = 1 / 16" by simp
  finally have a: "(2::rat) powi (- 1074) \<le> 1 / 16" .
  have "1 / 16 \<le> w"
    using assms by (auto simp add: named_weight_def split: if_splits)
  with a show ?thesis by linarith
qed

lemma criterion_weight_named:
  "criterion_weight c dflt =
     (case named_weight c of Some w \<Rightarrow> round_to_double w | None \<Rightarrow> dflt)"
  by (simp add: criterion_weight_def DEFAULT_CRITERIA_WEIGHTS_def named_weight_def)

lemma equal_share_Inr:
  assumes "equal_share n = Inr w" and "0 < n"
  shows "w = fquot (Finite 1) (round_to_double (of_nat n))" and "positive_float w"
proof -
  have "(2::rat) powi (- 1074) \<le> 2 powi 0" by (intro power_int_increasing) auto
  also have "\<dots> \<le> of_nat n" using assms(2) by simp
  finally have n: "(2::rat) powi (- 1074) \<le> of_nat n" .
  have npos: "(0::rat) < of_nat n" using assms(2) by simp
  from assms(1) obtain x where x: "round_to_double (of_nat n) = Finite x"
    by (cases "round_to_double (of_nat n)")
       (simp_all add: equal_share_def float_of_int_def and_then_def)
  from round_to_double_positive[OF n] x have x_lo: "2 powi (- 1074) \<le> x" by simp
  have "(0::rat) < 2 powi (- 1074)" by simp
  with x_lo have xpos: "0 < x" by linarith
  from round_to_double_finite_less[OF x npos] have x_hi: "x < 2 powi 1024" .
  from assms(1) have w: "w = round_to_double (1 / x)"
    using xpos by (simp add: equal_share_def float_of_int_def and_then_def x)
  show "w = fquot (Finite 1) (round_to_double (of_nat n))"
    using xpos by (simp add: w x fquot_def)
  define B where "B = (2::rat) powi 1024"
  have Bx: "x < B" using x_hi by (simp only: B_def)
  have "(2::rat) powi (- 1074) \<le> 2 powi (- 1024)" by (intro power_int_increasing) auto
  also have "\<dots> = 1 / B" unfolding B_def by (simp only: power_int_minus inverse_eq_divide)
  also have "\<dots> \<le> 1 / x" using xpos Bx by (simp add: frac_le)
  finally have "(2::rat) powi (- 1074) \<le> 1 / x" .
  from positive_float_round[OF this] show "positive_float w" by (simp add: w)
qed

lemma criterion_weight_float:
  assumes "equal_share n = Inr w" and "0 < n"
  shows "criterion_weight c w = float_weight n c" and "positive_float (criterion_weight c w)"
proof -
  show "criterion_weight c w = float_weight n c"
    by (simp add: criterion_weight_named float_weight_def equal_share_Inr(1)[OF assms])
  show "positive_float (criterion_weight c w)"
    using equal_share_Inr(2)[OF assms] named_weight_positive[of c]
    by (auto simp add: criterion_weight_named positive_float_round split: option.split)
qed

text \<open>The loop of \<open>_calculate_overall_score\<close> adds up the products and the weights.\<close>

lemma score_times_weight_valid:
  assumes "is_number s" and "between_0_100 s"
  shows "score_times_weight s w = Inr (fmul (float_of_score s) w)"
proof (cases s)
  case (PyInt i)
  with assms(2) have i: "0 \<le> i" "i \<le> 100" by simp_all
  then have "i < 2 ^ 53" by simp
  from round_to_double_exact[OF i(1) this, of 0]
  have "round_to_double (of_int i) = Finite (of_int i)" by simp
  then show ?thesis by (simp add: PyInt float_of_int_def and_then_def)
next
  case (PyBool b)
  have "round_to_double 1 = Finite 1" using round_to_double_exact[of 1 0] by simp
  moreover have "round_to_double 0 = Finite 0" by (simp add: round_to_double_def)
  ultimately show ?thesis by (simp add: PyBool float_of_int_def and_then_def)
qed (use assms in simp_all)

lemma validate_criteria_Inr:
  "validate_criteria items = Inr () \<Longrightarrow> (c, s) \<in> set items \<Longrightarrow> is_number s \<and> between_0_100 s"
  by (induction items) (auto split: if_splits)

lemma score_loop_sums:
  assumes "equal_share n = Inr w" and "0 < n"
    and "\<And>c s. (c, s) \<in> set items \<Longrightarrow> is_number s \<and> between_0_100 s"
  shows "score_loop n items total_score total_weight =
           Inr (foldl fadd total_score
                  (map (\<lambda>(c, s). fmul (float_of_score s) (float_weight n c)) items),
                foldl fadd total_weight (map (\<lambda>(c, s). float_weight n c) items))"
  using assms(3)
proof (induction items arbitrary: total_score total_weight)
  case Nil
  then show ?case by simp
next
  case (Cons cs items)
  obtain c s where cs: "cs = (c, s)" by (cases cs)
  have v: "is_number s \<and> between_0_100 s" using Cons.prems[of c s] cs by simp
  have st: "score_times_weight s (float_weight n c) = Inr (fmul (float_of_score s) (float_weight n c))"
    using v by (simp add: score_times_weight_valid)
  have IH: "score_loop n items a b =
           Inr (foldl fadd a (map (\<lambda>(c, s). fmul (float_of_score s) (float_weight n c)) items),
                foldl fadd b (map (\<lambda>(c, s). float_weight n c) items))" for a b
  proof (rule Cons.IH)
    fix c' s' assume "(c', s') \<in> set items"
    then show "is_number s' \<and> between_0_100 s'" using Cons.prems[of c' s'] by simp
  qed
  show ?case
    by (simp add: cs assms(1) and_then_def criterion_weight_float(1)[OF assms(1,2)] st IH
          Let_def)
qed

lemma weights_positive:
  assumes "equal_share n = Inr w" and "0 < n"
  shows "\<forall>x \<in> set (map (\<lambda>(c, s). float_weight n c) items). positive_float x"
  using criterion_weight_float[OF assms] by auto

lemma calculate_overall_score_float:
  assumes "items \<noteq> []" and "equal_share (length items) = Inr w"
    and "\<And>c s. (c, s) \<in> set items \<Longrightarrow> is_number s \<and> between_0_100 s"
  shows "calculate_overall_score items = Inr (float_overall_score items)"
proof -
  have n: "0 < length items" using assms(1) by simp
  define S where "S = fsum (map (\<lambda>(c, s). fmul (float_of_score s) (float_weight (length items) c)) items)"
  define W where "W = fsum (map (\<lambda>(c, s). float_weight (length items) c) items)"
  have loop: "score_loop (length items) items (Finite 0) (Finite 0) = Inr (S, W)"
    unfolding S_def W_def fsum_def by (rule score_loop_sums[OF assms(2) n assms(3)])
  have "positive_float W"
    unfolding W_def fsum_def
    using weights_positive[OF assms(2) n] assms(1)
    by (intro positive_float_foldl) simp_all
  then have pos: "fless (Finite 0) W" by (rule positive_float_less)
  then have nz: "W \<noteq> Finite 0" by auto
  have "\<exists>q. fdiv S W = Inr q"
    using nz by (cases W; cases S) simp_all
  then obtain q where q: "fdiv S W = Inr q" by blast
  then have fq: "fquot S W = q" by (simp add: fquot_def)
  show ?thesis
    unfolding calculate_overall_score_def loop float_overall_score_def
      S_def[symmetric] W_def[symmetric]
    by (simp add: and_then_def pos q fq)
qed

lemma calculate_overall_score_Inr:
  assumes "calculate_overall_score items = Inr r" and "items \<noteq> []"
  shows "\<exists>w. equal_share (length items) = Inr w"
proof -
  from assms(2) obtain c s rest where i: "items = (c, s) # rest"
    by (cases items) auto
  show ?thesis
  proof (cases "equal_share (length items)")
    case (Inl e)
    then have "score_loop (length items) items (Finite 0) (Finite 0) = Inl e"
      by (subst i) (simp add: and_then_def)
    with assms(1) show ?thesis by (simp add: calculate_overall_score_def and_then_def)
  next
    case (Inr w)
    then show ?thesis by blast
  qed
qed

text \<open>The constructor without an overall score.\<close>

lemma AnalysisResult_computed:
  assumes "AnalysisResult now kw = Inr a" and "kwarg kw ''overall_score'' PyNone = PyNone"
  shows "\<exists>items. kwarg kw ''criteria_scores'' PyNone = PyDict items \<and> items \<noteq> [] \<and>
           validate_criteria items = Inr () \<and>
           a = (analysis_store now kw)
                 (''overall_score'' \<mapsto> PyFloat (float_overall_score items),
                  ''_frozen'' \<mapsto> PyBool True)"
proof -
  from assms(1) have post: "analysis_post_init (analysis_store now kw) = Inr a"
    by (simp add: AnalysisResult_def set_all_analysis_init and_then_def split: if_splits)
  then have v: "analysis_validate (analysis_store now kw) = Inr ()"
    by (auto simp add: analysis_post_init_def and_then_def split: sum.splits)
  from v obtain items where items: "kwarg kw ''criteria_scores'' PyNone = PyDict items"
    and ne: "items \<noteq> []" and vc: "validate_criteria items = Inr ()"
    by (cases "kwarg kw ''criteria_scores'' PyNone")
       (auto simp add: analysis_validate_def analysis_store_def analysis_validate_fields_def
          assms(2) and_then_def split: if_splits)
  from post v have step: "analysis_score_step (analysis_store now kw) \<noteq> Inl e" for e
    by (auto simp add: analysis_post_init_def and_then_def split: sum.splits)
  have frozen: "\<not> is_frozen (analysis_store now kw)"
    by (simp add: is_frozen_def analysis_store_def)
  have sc: "analysis_score_step (analysis_store now kw) =
      and_then (calculate_overall_score items) (\<lambda>score.
        analysis_setattr (analysis_store now kw) ''overall_score'' (PyFloat score))"
    by (simp add: analysis_score_step_def analysis_store_def assms(2) items)
  obtain r where r: "calculate_overall_score items = Inr r"
    using step sc by (cases "calculate_overall_score items") (auto simp add: and_then_def)
  from calculate_overall_score_Inr[OF r ne] obtain w where
    w: "equal_share (length items) = Inr w" by blast
  have "calculate_overall_score items = Inr (float_overall_score items)"
    by (rule calculate_overall_score_float[OF ne w]) (rule validate_criteria_Inr[OF vc])
  then have "analysis_score_step (analysis_store now kw) =
      Inr ((analysis_store now kw)(''overall_score'' \<mapsto> PyFloat (float_overall_score items)))"
    using frozen by (simp add: sc and_then_def analysis_setattr_def)
  with post v have "a = (analysis_store now kw)
                 (''overall_score'' \<mapsto> PyFloat (float_overall_score items),
                  ''_frozen'' \<mapsto> PyBool True)"
    by (simp add: analysis_post_init_def and_then_def)
  with items ne vc show ?thesis by blast
qed

end
